theory Spec2Isabelle
  imports Complex_Main "HOL-Library.Multiset"
begin

section \<open>JavaScript values\<close>

subsection \<open>Numbers\<close>

text \<open>
  A JavaScript number is modelled as an exact rational or one of the three special
  values of IEEE arithmetic. The rounding of doubles is not modelled: \<open>0.1\<close> is the
  rational \<open>1/10\<close>. Division is written out, since \<open>x / 0\<close> is \<open>Infinity\<close> or \<open>NaN\<close>
  in JavaScript and \<open>0\<close> in HOL. Negative zero is not modelled.
\<close>

datatype jsnum = Fin rat | PInf | NInf | NaN

definition js_div :: "rat \<Rightarrow> rat \<Rightarrow> jsnum" where
  "js_div a b =
     (if b \<noteq> 0 then Fin (a / b)
      else if 0 < a then PInf
      else if a < 0 then NInf
      else NaN)"

fun js_sub :: "jsnum \<Rightarrow> jsnum \<Rightarrow> jsnum" where
  "js_sub (Fin a) (Fin b) = Fin (a - b)"
| "js_sub NaN y = NaN"
| "js_sub x NaN = NaN"
| "js_sub PInf PInf = NaN"
| "js_sub NInf NInf = NaN"
| "js_sub PInf y = PInf"
| "js_sub NInf y = NInf"
| "js_sub (Fin a) PInf = NInf"
| "js_sub (Fin a) NInf = PInf"

fun js_abs :: "jsnum \<Rightarrow> jsnum" where
  "js_abs (Fin a) = Fin \<bar>a\<bar>"
| "js_abs PInf = PInf"
| "js_abs NInf = PInf"
| "js_abs NaN = NaN"

text \<open>\<open>x * c\<close> for a finite constant \<open>c > 0\<close> (the only products of a possibly
  special value in the code modelled here).\<close>

fun js_scale :: "jsnum \<Rightarrow> rat \<Rightarrow> jsnum" where
  "js_scale (Fin a) c = Fin (a * c)"
| "js_scale PInf c = PInf"
| "js_scale NInf c = NInf"
| "js_scale NaN c = NaN"

text \<open>Comparisons with a finite right-hand side; every comparison with \<open>NaN\<close> is false.\<close>

fun js_lt :: "jsnum \<Rightarrow> rat \<Rightarrow> bool" where
  "js_lt (Fin a) c = (a < c)"
| "js_lt NInf c = True"
| "js_lt PInf c = False"
| "js_lt NaN c = False"

fun js_le :: "jsnum \<Rightarrow> rat \<Rightarrow> bool" where
  "js_le (Fin a) c = (a \<le> c)"
| "js_le NInf c = True"
| "js_le PInf c = False"
| "js_le NaN c = False"

fun js_ge :: "jsnum \<Rightarrow> rat \<Rightarrow> bool" where
  "js_ge (Fin a) c = (c \<le> a)"
| "js_ge PInf c = True"
| "js_ge NInf c = False"
| "js_ge NaN c = False"

subsection \<open>Strings\<close>

text \<open>
  A string is a list of code units; the model covers the code units \<open>U+0000\<close> to
  \<open>U+00FF\<close>, one \<open>char\<close> each, so \<open>length\<close> is JavaScript's \<open>.length\<close> on such
  strings.
\<close>

definition toLowerChar :: "char \<Rightarrow> char" where
  "toLowerChar c =
     (let n = (of_char c :: nat) in
      if (65 \<le> n \<and> n \<le> 90) \<or> (192 \<le> n \<and> n \<le> 222 \<and> n \<noteq> 215)
      then char_of (n + 32) else c)"

definition toLowerCase :: "string \<Rightarrow> string" where
  "toLowerCase s = map toLowerChar s"

text \<open>The class \<open>\s\<close> of a regular expression, on the code units modelled.\<close>

definition isSpace :: "char \<Rightarrow> bool" where
  "isSpace c = ((of_char c :: nat) \<in> {9, 10, 11, 12, 13, 32, 160})"

text \<open>
  \<open>s.split(/[...]+/)\<close> for a separator that is a non-empty run of characters of one
  class: the pieces between the maximal runs, with an empty first (last) piece when the
  string starts (ends) with a separator, and \<open>[""]\<close> for the empty string.
\<close>

function splitRuns :: "(char \<Rightarrow> bool) \<Rightarrow> string \<Rightarrow> string \<Rightarrow> string list" where
  "splitRuns sep cur [] = [cur]"
| "splitRuns sep cur (c # cs) =
     (if sep c then cur # splitRuns sep [] (dropWhile sep cs)
      else splitRuns sep (cur @ [c]) cs)"
  by pat_completeness auto
termination
  by (relation "measure (\<lambda>(sep, cur, s). length s)")
     (auto simp: length_dropWhile_le le_imp_less_Suc)

definition splitOn :: "(char \<Rightarrow> bool) \<Rightarrow> string \<Rightarrow> string list" where
  "splitOn sep s = splitRuns sep [] s"

text \<open>\<open>s.includes(t)\<close>: \<open>t\<close> occurs in \<open>s\<close> as a contiguous substring.\<close>

fun isPrefixOf :: "string \<Rightarrow> string \<Rightarrow> bool" where
  "isPrefixOf [] s = True"
| "isPrefixOf (p # ps) [] = False"
| "isPrefixOf (p # ps) (c # cs) = (p = c \<and> isPrefixOf ps cs)"

fun str_includes :: "string \<Rightarrow> string \<Rightarrow> bool" where
  "str_includes [] t = isPrefixOf t []"
| "str_includes (c # cs) t = (isPrefixOf t (c # cs) \<or> str_includes cs t)"

subsection \<open>JSON documents\<close>

text \<open>
  A parsed JSON value. An object is the list of its entries in the order of
  \<open>Object.entries\<close>, with distinct keys; numbers are integers.
\<close>

datatype json =
    JNull
  | JBool bool
  | JNum int
  | JStr string
  | JArr "json list"
  | JObj "(string \<times> json) list"

text \<open>Truthiness of a property read: a missing property is \<open>undefined\<close>.\<close>

fun truthy :: "json option \<Rightarrow> bool" where
  "truthy None = False"
| "truthy (Some JNull) = False"
| "truthy (Some (JBool b)) = b"
| "truthy (Some (JNum n)) = (n \<noteq> 0)"
| "truthy (Some (JStr s)) = (s \<noteq> [])"
| "truthy (Some (JArr xs)) = True"
| "truthy (Some (JObj kvs)) = True"

fun isString :: "json option \<Rightarrow> bool" where
  "isString (Some (JStr s)) = True"
| "isString v = False"

fun isCompound :: "json \<Rightarrow> bool" where
  "isCompound (JArr xs) = True"
| "isCompound (JObj kvs) = True"
| "isCompound v = False"

text \<open>
  An object of the document as an occurrence refers to it: \<open>oid\<close> stands for the
  reference (the position of the object in the document tree, so two references are the
  same object iff their \<open>oid\<close> agree), \<open>entries\<close> are its properties.
\<close>

record jsobject =
  oid :: "nat list"
  entries :: "(string \<times> json) list"

definition getProp :: "jsobject \<Rightarrow> string \<Rightarrow> json option" where
  "getProp obj k = map_of (entries obj) k"

section \<open>Data model\<close>

record dimensions =
  width :: nat
  height :: nat

text \<open>\<open>ImageUrlInfo\<close>: one placeholder URL found at one place of the document.
  \<open>contextObj\<close> (the source's \<open>context\<close>) is the enclosing object (\<open>None\<close>: a caller passed no context).\<close>

record ImageUrlInfo =
  url :: string
  path :: string
  fieldName :: string
  contextObj :: "jsobject option"
  dimensions :: dimensions
  seed :: "string option"
  itemIndex :: nat

record ImageDescription =
  prompt :: string
  style :: string
  category :: string
  confidence :: rat
  baseContext :: string
  enhancedPrompt :: string

datatype processingType = Generate | Resize | Crop | Reuse

record cropRegion =
  cropX :: int
  cropY :: int
  cropWidth :: nat
  cropHeight :: nat

text \<open>\<open>ProcessingPlan\<close>. \<open>description\<close> is what \<open>descriptions.get\<close> returned
  (\<open>None\<close> is \<open>undefined\<close>).\<close>

record ProcessingPlan =
  imageId :: string
  processingType :: processingType
  sourceImageId :: "string option"
  targetDimensions :: dimensions
  planCropRegion :: "cropRegion option"
  description :: "ImageDescription option"
  priority :: int
  estimatedCost :: rat

record ProcessingGroup =
  masterImageId :: string
  groupDescription :: "ImageDescription option"
  groupTargetDimensions :: dimensions
  variants :: "ProcessingPlan list"
  totalCost :: rat

record OptimizationResult =
  groups :: "ProcessingGroup list"
  totalImages :: nat
  generatedImages :: nat
  resizedImages :: nat
  croppedImages :: nat
  reusedImages :: nat
  estimatedSavings :: jsnum

text \<open>What the JavaScript runtime throws in the code modelled here.\<close>

datatype error = TypeError

type_synonym descriptions = "string \<rightharpoonup> ImageDescription"

section \<open>ImageProcessingAnalyzer\<close>

definition SIMILARITY_THRESHOLD :: rat where
  "SIMILARITY_THRESHOLD = 8 / 10"

definition MIN_RESIZE_RATIO :: rat where
  "MIN_RESIZE_RATIO = 5 / 10"

definition MAX_RESIZE_RATIO :: rat where
  "MAX_RESIZE_RATIO = 2"

definition CROP_EFFICIENCY_THRESHOLD :: rat where
  "CROP_EFFICIENCY_THRESHOLD = 6 / 10"

subsection \<open>Similarity\<close>

text \<open>\<open>calculateDescriptionSimilarity\<close>. The two \<open>Set\<close>s of words are duplicate-free
  lists; \<open>split\<close> never returns an empty array, so the union is never empty.\<close>

definition calculateDescriptionSimilarity :: "ImageDescription \<Rightarrow> ImageDescription \<Rightarrow> rat" where
  "calculateDescriptionSimilarity desc1 desc2 =
     (let categorySimilarity = (if category desc1 = category desc2 then 4 / 10 else 0);
          words1 = remdups (splitOn isSpace (toLowerCase (prompt desc1)));
          words2 = remdups (splitOn isSpace (toLowerCase (prompt desc2)));
          intersection = filter (\<lambda>x. x \<in> set words2) words1;
          unionWords = remdups (words1 @ words2);
          wordSimilarity =
            of_nat (length intersection) / of_nat (length unionWords) * (4 / 10);
          styleSimilarity = (if style desc1 = style desc2 then 2 / 10 else 0)
      in categorySimilarity + wordSimilarity + styleSimilarity)"

text \<open>\<open>levenshteinDistance\<close>: the matrix is filled row by row. \<open>levRow c str1 prev left\<close>
  is the rest of the row of character \<open>c\<close> of \<open>str2\<close>, from the previous row and the cell
  to the left.\<close>

fun levRow :: "char \<Rightarrow> string \<Rightarrow> nat list \<Rightarrow> nat \<Rightarrow> nat list" where
  "levRow c [] prev left = []"
| "levRow c (d # ds) (diag # up # prev) left =
     (let cell = (if c = d then diag
                  else min (diag + 1) (min (left + 1) (up + 1)))
      in cell # levRow c ds (up # prev) cell)"
| "levRow c (d # ds) prev left = []"

fun levRows :: "string \<Rightarrow> string \<Rightarrow> nat \<Rightarrow> nat list \<Rightarrow> nat list" where
  "levRows str1 [] i prevRow = prevRow"
| "levRows str1 (c # cs) i prevRow =
     levRows str1 cs (Suc i) (Suc i # levRow c str1 prevRow (Suc i))"

definition levenshteinDistance :: "string \<Rightarrow> string \<Rightarrow> nat" where
  "levenshteinDistance str1 str2 = last (levRows str1 str2 0 [0..<Suc (length str1)])"

definition calculateStringSimilarity :: "string \<Rightarrow> string \<Rightarrow> rat" where
  "calculateStringSimilarity str1 str2 =
     (let longer = (if length str1 > length str2 then str1 else str2);
          shorter = (if length str1 > length str2 then str2 else str1)
      in if length longer = 0 then 1
         else (of_nat (length longer) - of_nat (levenshteinDistance longer shorter))
              / of_nat (length longer))"

text \<open>\<open>context1[field] === context2[field]\<close>: primitives are compared by value, arrays
  and objects by reference, and two reads of one field give the same reference iff they
  read the same object.\<close>

definition strictEq :: "jsobject \<Rightarrow> jsobject \<Rightarrow> json \<Rightarrow> json \<Rightarrow> bool" where
  "strictEq c1 c2 v1 v2 =
     (if isCompound v1 \<or> isCompound v2 then oid c1 = oid c2 \<and> v1 = v2 else v1 = v2)"

definition keyFields :: "string list" where
  "keyFields = [''category'', ''type'', ''brand'', ''location'', ''name'']"

fun compareField :: "jsobject \<Rightarrow> jsobject \<Rightarrow> rat \<times> nat \<Rightarrow> string \<Rightarrow> rat \<times> nat" where
  "compareField c1 c2 (similarity, comparisons) field =
     (if truthy (getProp c1 field) \<and> truthy (getProp c2 field) then
        (case (getProp c1 field, getProp c2 field) of
           (Some v1, Some v2) \<Rightarrow>
             if strictEq c1 c2 v1 v2 then (similarity + 1, comparisons + 1)
             else (case (v1, v2) of
                     (JStr s1, JStr s2) \<Rightarrow>
                       (similarity + calculateStringSimilarity s1 s2, comparisons + 1)
                   | _ \<Rightarrow> (similarity, comparisons + 1))
         | _ \<Rightarrow> (similarity, comparisons))
      else (similarity, comparisons))"

definition calculateContextSimilarity :: "ImageUrlInfo \<Rightarrow> ImageUrlInfo \<Rightarrow> rat" where
  "calculateContextSimilarity img1 img2 =
     (case (contextObj img1, contextObj img2) of
        (Some context1, Some context2) \<Rightarrow>
          (case foldl (compareField context1 context2) (0, 0) keyFields of
             (similarity, comparisons) \<Rightarrow>
               if comparisons > 0 then similarity / of_nat comparisons else 0)
      | _ \<Rightarrow> 0)"

subsection \<open>Grouping\<close>

text \<open>
  \<open>groupBySimilarity\<close>: the outer \<open>forEach\<close> is \<open>groupLoop\<close>, the inner one is
  \<open>scanOthers\<close>; both run over the whole list \<open>images\<close>. The state is the array
  \<open>groups\<close> (\<open>grps\<close>; \<open>currentGroup\<close> in the inner loop) and the set \<open>processed\<close>.
\<close>

fun scanOthers ::
  "descriptions \<Rightarrow> ImageUrlInfo \<Rightarrow> ImageDescription \<Rightarrow> ImageUrlInfo list \<Rightarrow>
   ImageUrlInfo list \<times> string set \<Rightarrow> ImageUrlInfo list \<times> string set" where
  "scanOthers descs img currentDesc [] (currentGroup, processed) = (currentGroup, processed)"
| "scanOthers descs img currentDesc (otherImage # rest) (currentGroup, processed) =
     (if path otherImage \<in> processed
      then scanOthers descs img currentDesc rest (currentGroup, processed)
      else (case descs (path otherImage) of
              None \<Rightarrow> scanOthers descs img currentDesc rest (currentGroup, processed)
            | Some otherDesc \<Rightarrow>
                if calculateDescriptionSimilarity currentDesc otherDesc \<ge> SIMILARITY_THRESHOLD
                   \<or> calculateContextSimilarity img otherImage \<ge> SIMILARITY_THRESHOLD
                then scanOthers descs img currentDesc rest
                       (currentGroup @ [otherImage], insert (path otherImage) processed)
                else scanOthers descs img currentDesc rest (currentGroup, processed)))"

fun groupLoop ::
  "descriptions \<Rightarrow> ImageUrlInfo list \<Rightarrow> ImageUrlInfo list \<Rightarrow>
   ImageUrlInfo list list \<times> string set \<Rightarrow> ImageUrlInfo list list \<times> string set" where
  "groupLoop descs images [] (grps, processed) = (grps, processed)"
| "groupLoop descs images (img # rest) (grps, processed) =
     (if path img \<in> processed then groupLoop descs images rest (grps, processed)
      else (case descs (path img) of
              None \<Rightarrow> groupLoop descs images rest (grps, insert (path img) processed)
            | Some currentDesc \<Rightarrow>
                (case scanOthers descs img currentDesc images
                        ([img], insert (path img) processed) of
                   (currentGroup, processed') \<Rightarrow>
                     groupLoop descs images rest (grps @ [currentGroup], processed'))))"

definition groupBySimilarity :: "ImageUrlInfo list \<Rightarrow> descriptions \<Rightarrow> ImageUrlInfo list list" where
  "groupBySimilarity images descs = fst (groupLoop descs images images ([], {}))"

subsection \<open>Plans\<close>

text \<open>The score of \<open>selectMasterImage\<close>; \<open>(desc?.confidence || 0)\<close> is \<open>0\<close> without a
  description.\<close>

definition masterScore :: "descriptions \<Rightarrow> ImageUrlInfo \<Rightarrow> rat" where
  "masterScore descs img =
     (case descs (path img) of None \<Rightarrow> 0 | Some d \<Rightarrow> confidence d) * 100
     + of_nat (width (dimensions img) * height (dimensions img)) / 10000"

text \<open>\<open>images.reduce\<close> without an initial value: a \<open>TypeError\<close> on the empty array.\<close>

fun selectMasterImage :: "ImageUrlInfo list \<Rightarrow> descriptions \<Rightarrow> error + ImageUrlInfo" where
  "selectMasterImage [] descs = Inl TypeError"
| "selectMasterImage (first # rest) descs =
     Inr (foldl (\<lambda>best current.
                  if masterScore descs current > masterScore descs best then current else best)
            first rest)"

definition canCropEfficiently :: "dimensions \<Rightarrow> dimensions \<Rightarrow> bool" where
  "canCropEfficiently sourceDims targetDims =
     (let sourceArea = width sourceDims * height sourceDims;
          targetArea = width targetDims * height targetDims;
          efficiency = js_div (of_nat targetArea) (of_nat sourceArea)
      in width targetDims \<le> width sourceDims \<and>
         height targetDims \<le> height sourceDims \<and>
         js_ge efficiency CROP_EFFICIENCY_THRESHOLD)"

definition calculateOptimalCrop :: "dimensions \<Rightarrow> dimensions \<Rightarrow> cropRegion" where
  "calculateOptimalCrop sourceDims targetDims =
     (let x = max 0 ((of_nat (width sourceDims) - of_nat (width targetDims)) / (2 :: rat));
          y = max 0 ((of_nat (height sourceDims) - of_nat (height targetDims)) / (2 :: rat))
      in \<lparr>cropX = \<lfloor>x\<rfloor>, cropY = \<lfloor>y\<rfloor>,
          cropWidth = width targetDims, cropHeight = height targetDims\<rparr>)"

text \<open>
  \<open>calculatePriority\<close>. \<open>Math.log10\<close> is the real logarithm and \<open>Math.round x\<close> is
  \<open>\<lfloor>x + 1/2\<rfloor>\<close>; for an empty area \<open>Math.log10(0)\<close> is \<open>-Infinity\<close>, which the final
  \<open>Math.max(1, ...)\<close> turns into \<open>1\<close>.
\<close>

definition calculatePriority :: "ImageUrlInfo \<Rightarrow> ImageDescription \<Rightarrow> int" where
  "calculatePriority img d =
     (let name = toLowerCase (fieldName img);
          bonus = (if str_includes name ''banner'' \<or> str_includes name ''hero'' then 5
                   else if str_includes name ''thumb'' then - 2 else (0 :: rat));
          area = width (dimensions img) * height (dimensions img)
      in if area = 0 then 1
         else max 1 (min 10
                \<lfloor>real_of_rat (confidence d * 10 + bonus) + log 10 (real area / 10000) + 1 / 2\<rfloor>))"

text \<open>\<open>createVariantPlan\<close>. Without a description for the target, reading
  \<open>description.confidence\<close> in \<open>calculatePriority\<close> throws.\<close>

definition createVariantPlan ::
  "ImageUrlInfo \<Rightarrow> ImageUrlInfo \<Rightarrow> descriptions \<Rightarrow> error + ProcessingPlan" where
  "createVariantPlan targetImage masterImage descs =
     (let masterDims = dimensions masterImage;
          targetDims = dimensions targetImage;
          widthRatio = js_div (of_nat (width targetDims)) (of_nat (width masterDims));
          heightRatio = js_div (of_nat (height targetDims)) (of_nat (height masterDims));
          aspectRatioMatch = js_lt (js_abs (js_sub widthRatio heightRatio)) (1 / 10);
          (ptype, crop, cost) =
            (if width targetDims = width masterDims \<and> height targetDims = height masterDims
             then (Reuse, None, 1 / 10)
             else if aspectRatioMatch \<and> js_ge widthRatio MIN_RESIZE_RATIO
                     \<and> js_le widthRatio MAX_RESIZE_RATIO
             then (Resize, None, 2 / 10)
             else if canCropEfficiently masterDims targetDims
             then (Crop, Some (calculateOptimalCrop masterDims targetDims), 3 / 10)
             else (Generate, None, 1))
      in case descs (path targetImage) of
           None \<Rightarrow> Inl TypeError
         | Some targetDesc \<Rightarrow>
             Inr \<lparr>imageId = path targetImage,
                  processingType = ptype,
                  sourceImageId = (if ptype \<noteq> Generate then Some (path masterImage) else None),
                  targetDimensions = targetDims,
                  planCropRegion = crop,
                  description = Some targetDesc,
                  priority = calculatePriority targetImage targetDesc,
                  estimatedCost = cost\<rparr>)"

text \<open>The loop of \<open>optimizeGroup\<close> over the non-master images.\<close>

fun variantPlans ::
  "ImageUrlInfo list \<Rightarrow> ImageUrlInfo \<Rightarrow> descriptions \<Rightarrow> error + ProcessingPlan list" where
  "variantPlans [] masterImage descs = Inr []"
| "variantPlans (img # rest) masterImage descs =
     (if path img = path masterImage then variantPlans rest masterImage descs
      else (case createVariantPlan img masterImage descs of
              Inl e \<Rightarrow> Inl e
            | Inr plan \<Rightarrow>
                (case variantPlans rest masterImage descs of
                   Inl e \<Rightarrow> Inl e
                 | Inr plans \<Rightarrow> Inr (plan # plans))))"

definition masterPlan :: "ImageUrlInfo \<Rightarrow> descriptions \<Rightarrow> ProcessingPlan" where
  "masterPlan img descs =
     \<lparr>imageId = path img, processingType = Generate, sourceImageId = None,
      targetDimensions = dimensions img, planCropRegion = None,
      description = descs (path img), priority = 1, estimatedCost = 1\<rparr>"

definition optimizeGroup :: "ImageUrlInfo list \<Rightarrow> descriptions \<Rightarrow> error + ProcessingGroup" where
  "optimizeGroup images descs =
     (case images of
        [img] \<Rightarrow>
          Inr \<lparr>masterImageId = path img,
               groupDescription = descs (path img),
               groupTargetDimensions = dimensions img,
               variants = [masterPlan img descs],
               totalCost = 1\<rparr>
      | _ \<Rightarrow>
          (case selectMasterImage images descs of
             Inl e \<Rightarrow> Inl e
           | Inr masterImage \<Rightarrow>
               (case variantPlans images masterImage descs of
                  Inl e \<Rightarrow> Inl e
                | Inr plans \<Rightarrow>
                    Inr \<lparr>masterImageId = path masterImage,
                         groupDescription = descs (path masterImage),
                         groupTargetDimensions = dimensions masterImage,
                         variants = masterPlan masterImage descs # plans,
                         totalCost = foldl (\<lambda>cost plan. cost + estimatedCost plan) 1 plans\<rparr>)))"

subsection \<open>The result\<close>

definition countType :: "processingType \<Rightarrow> ProcessingGroup list \<Rightarrow> nat" where
  "countType t gs = length (filter (\<lambda>v. processingType v = t) (concat (map variants gs)))"

definition calculateOptimizationResult :: "ProcessingGroup list \<Rightarrow> OptimizationResult" where
  "calculateOptimizationResult gs =
     (let total = sum_list (map (\<lambda>g. length (variants g)) gs);
          totalCostWithoutOptimization = (of_nat total :: rat);
          totalCostWithOptimization = sum_list (map totalCost gs)
      in \<lparr>groups = gs,
          totalImages = total,
          generatedImages = countType Generate gs,
          resizedImages = countType Resize gs,
          croppedImages = countType Crop gs,
          reusedImages = countType Reuse gs,
          estimatedSavings =
            js_scale (js_div (totalCostWithoutOptimization - totalCostWithOptimization)
                             totalCostWithoutOptimization) 100\<rparr>)"

text \<open>\<open>similarityGroups.map(group => optimizeGroup(group, descriptions))\<close>: the first
  exception ends the map.\<close>

fun optimizeAll :: "ImageUrlInfo list list \<Rightarrow> descriptions \<Rightarrow> error + ProcessingGroup list" where
  "optimizeAll [] descs = Inr []"
| "optimizeAll (g # gs) descs =
     (case optimizeGroup g descs of
        Inl e \<Rightarrow> Inl e
      | Inr pg \<Rightarrow> (case optimizeAll gs descs of Inl e \<Rightarrow> Inl e | Inr pgs \<Rightarrow> Inr (pg # pgs)))"

definition createProcessingPlan ::
  "ImageUrlInfo list \<Rightarrow> descriptions \<Rightarrow> error + OptimizationResult" where
  "createProcessingPlan images descs =
     (case optimizeAll (groupBySimilarity images descs) descs of
        Inl e \<Rightarrow> Inl e
      | Inr gs \<Rightarrow> Inr (calculateOptimizationResult gs))"

subsection \<open>Notions the properties are stated with\<close>

text \<open>The \<open>imageId\<close>s of all plans of a result, group after group.\<close>

definition planIds :: "OptimizationResult \<Rightarrow> string list" where
  "planIds r = concat (map (\<lambda>g. map imageId (variants g)) (groups r))"

text \<open>The cost \<open>createVariantPlan\<close> assigns with each processing type.\<close>

definition planCost :: "processingType \<Rightarrow> rat" where
  "planCost t = (case t of Generate \<Rightarrow> 1 | Resize \<Rightarrow> 2 / 10 | Crop \<Rightarrow> 3 / 10 | Reuse \<Rightarrow> 1 / 10)"

text \<open>A plan as \<open>createVariantPlan\<close> builds it for the master \<open>m\<close>: it names the master
  as its source unless it is itself a generation, and it has the cost of its type.\<close>

definition variantOf :: "string \<Rightarrow> ProcessingPlan \<Rightarrow> bool" where
  "variantOf m p =
     (sourceImageId p = (if processingType p = Generate then None else Some m) \<and>
      estimatedCost p = planCost (processingType p))"

text \<open>The two costs of \<open>calculateOptimizationResult\<close>: one unit per plan, and the sum
  of the plans' estimated costs.\<close>

definition unoptimizedCost :: "OptimizationResult \<Rightarrow> rat" where
  "unoptimizedCost r = of_nat (length (planIds r))"

definition optimizedCost :: "OptimizationResult \<Rightarrow> rat" where
  "optimizedCost r = sum_list (map estimatedCost (concat (map variants (groups r))))"

text \<open>Two occurrences with one description and the dimensions 1000x1000 and 100x100.\<close>

definition exDescription :: ImageDescription where
  "exDescription =
     \<lparr>prompt = ''professional photography, square composition, centered'',
      style = ''professional'', category = ''generic'', confidence = 1,
      baseContext = ''professional image'',
      enhancedPrompt = ''professional photography, square composition, centered''\<rparr>"

definition exBig :: ImageUrlInfo where
  "exBig = \<lparr>url = ''https://picsum.photos/1000/1000'', path = ''big'', fieldName = ''big'',
            contextObj = None, dimensions = \<lparr>width = 1000, height = 1000\<rparr>,
            seed = None, itemIndex = 0\<rparr>"

definition exSmall :: ImageUrlInfo where
  "exSmall = \<lparr>url = ''https://picsum.photos/100/100'', path = ''small'', fieldName = ''small'',
              contextObj = None, dimensions = \<lparr>width = 100, height = 100\<rparr>,
              seed = None, itemIndex = 0\<rparr>"

definition exDescs :: descriptions where
  "exDescs = [''big'' \<mapsto> exDescription, ''small'' \<mapsto> exDescription]"


text \<open>The group of the first occurrence alone.\<close>

definition exSingle :: ProcessingGroup where
  "exSingle =
     \<lparr>masterImageId = ''big'',
      groupDescription = Some exDescription,
      groupTargetDimensions = \<lparr>width = 1000, height = 1000\<rparr>,
      variants =
        [\<lparr>imageId = ''big'', processingType = Generate, sourceImageId = None,
          targetDimensions = \<lparr>width = 1000, height = 1000\<rparr>, planCropRegion = None,
          description = Some exDescription, priority = 1, estimatedCost = 1\<rparr>],
      totalCost = 1\<rparr>"

section \<open>ImageUrlExtractor\<close>

subsection \<open>Matching the URL patterns\<close>

text \<open>
  The regular expressions of the code are written out as matchers. An unanchored
  expression matches at some position of the string: \<open>anySuffix\<close> for \<open>test\<close>,
  \<open>firstMatch\<close> (the leftmost position) for \<open>match\<close>. At a position, every expression
  of the code matches in one way only: \<open>\d+\<close> and \<open>[^\/]+\<close> take the whole run of
  their class, since what follows them is outside the class.
\<close>

fun anySuffix :: "(string \<Rightarrow> bool) \<Rightarrow> string \<Rightarrow> bool" where
  "anySuffix p [] = p []"
| "anySuffix p (c # cs) = (p (c # cs) \<or> anySuffix p cs)"

fun firstMatch :: "(string \<Rightarrow> 'a option) \<Rightarrow> string \<Rightarrow> 'a option" where
  "firstMatch p [] = p []"
| "firstMatch p (c # cs) = (case p (c # cs) of Some r \<Rightarrow> Some r | None \<Rightarrow> firstMatch p cs)"

text \<open>The rest of the string after a literal prefix.\<close>

fun dropPrefix :: "string \<Rightarrow> string \<Rightarrow> string option" where
  "dropPrefix [] s = Some s"
| "dropPrefix (p # ps) [] = None"
| "dropPrefix (p # ps) (c # cs) = (if p = c then dropPrefix ps cs else None)"

definition isDigit :: "char \<Rightarrow> bool" where
  "isDigit c = (48 \<le> (of_char c :: nat) \<and> (of_char c :: nat) \<le> 57)"

text \<open>\<open>(\d+)\<close>: the digits and the rest, if there is a digit.\<close>

definition digits1 :: "string \<Rightarrow> (string \<times> string) option" where
  "digits1 s = (if takeWhile isDigit s = [] then None
                else Some (takeWhile isDigit s, dropWhile isDigit s))"

text \<open>\<open>parseInt\<close> of a string of digits.\<close>

definition parseInt :: "string \<Rightarrow> nat" where
  "parseInt ds = foldl (\<lambda>a c. 10 * a + ((of_char c :: nat) - 48)) 0 ds"

text \<open>\<open>(\d+)\/(\d+)\<close>: the two numbers.\<close>

definition widthHeight :: "string \<Rightarrow> (nat \<times> nat) option" where
  "widthHeight s =
     (case digits1 s of
        None \<Rightarrow> None
      | Some (w, r) \<Rightarrow>
          (case dropPrefix ''/'' r of
             None \<Rightarrow> None
           | Some r' \<Rightarrow>
               (case digits1 r' of
                  None \<Rightarrow> None
                | Some (h, r'') \<Rightarrow> Some (parseInt w, parseInt h))))"

text \<open>\<open>seed\/[^\/]+\/\<close>: the rest after the seed segment and its slash.\<close>

definition seedSegment :: "string \<Rightarrow> string option" where
  "seedSegment s =
     (case dropPrefix ''seed/'' s of
        None \<Rightarrow> None
      | Some r \<Rightarrow>
          if takeWhile (\<lambda>c. c \<noteq> CHR ''/'') r = [] then None
          else dropPrefix ''/'' (dropWhile (\<lambda>c. c \<noteq> CHR ''/'') r))"

text \<open>\<open>https?:\/\/picsum\.photos\<close>: the rest after the host.\<close>

definition picsumHost :: "string \<Rightarrow> string option" where
  "picsumHost s =
     (case dropPrefix ''http'' s of
        None \<Rightarrow> None
      | Some r \<Rightarrow>
          (case dropPrefix ''s'' r of
             Some r' \<Rightarrow> dropPrefix ''://picsum.photos'' r'
           | None \<Rightarrow> dropPrefix ''://picsum.photos'' r))"

text \<open>The four \<open>PICSUM_PATTERNS\<close>, at a position. Their optional tail
  \<open>(?:\?.*)?\<close> matches the empty string, so it does not restrict \<open>test\<close>.\<close>

definition pattern1 :: "string \<Rightarrow> bool" where
  "pattern1 s =
     (case picsumHost s of
        None \<Rightarrow> False
      | Some r \<Rightarrow> (case dropPrefix ''/'' r of
                     None \<Rightarrow> False
                   | Some r' \<Rightarrow> widthHeight r' \<noteq> None))"

definition pattern2 :: "string \<Rightarrow> bool" where
  "pattern2 s =
     (case picsumHost s of
        None \<Rightarrow> False
      | Some r \<Rightarrow> (case dropPrefix ''/'' r of
                     None \<Rightarrow> False
                   | Some r' \<Rightarrow> digits1 r' \<noteq> None))"

definition pattern3 :: "string \<Rightarrow> bool" where
  "pattern3 s =
     (case picsumHost s of
        None \<Rightarrow> False
      | Some r \<Rightarrow> (case dropPrefix ''/'' r of
                     None \<Rightarrow> False
                   | Some r' \<Rightarrow> (case seedSegment r' of
                                  None \<Rightarrow> False
                                | Some r'' \<Rightarrow> widthHeight r'' \<noteq> None)))"

definition pattern4 :: "string \<Rightarrow> bool" where
  "pattern4 s =
     (case picsumHost s of
        None \<Rightarrow> False
      | Some r \<Rightarrow> dropPrefix ''/v2/list'' r \<noteq> None)"

text \<open>
  \<open>ImageUrlExtractor.isPicsumUrl\<close>. The patterns carry the flag \<open>i\<close>; their letters
  are ASCII, so a character matches a letter iff its lower case is the letter, and the
  match is a match on the lower-cased string.
\<close>

definition extractorIsPicsumUrl :: "string \<Rightarrow> bool" where
  "extractorIsPicsumUrl u =
     (let s = toLowerCase u in
      anySuffix pattern1 s \<or> anySuffix pattern2 s \<or> anySuffix pattern3 s \<or> anySuffix pattern4 s)"

text \<open>\<open>ImageUrlExtractor.extractDimensions\<close>: three expressions, tried in turn, each
  case-sensitive.\<close>

definition dimsPlain :: "string \<Rightarrow> (nat \<times> nat) option" where
  "dimsPlain s = (case dropPrefix ''picsum.photos/'' s of None \<Rightarrow> None | Some r \<Rightarrow> widthHeight r)"

definition dimsSeed :: "string \<Rightarrow> (nat \<times> nat) option" where
  "dimsSeed s =
     (case dropPrefix ''picsum.photos/'' s of
        None \<Rightarrow> None
      | Some r \<Rightarrow> (case seedSegment r of None \<Rightarrow> None | Some r' \<Rightarrow> widthHeight r'))"

text \<open>\<open>(\d+)(?:\?|$)\<close>: a number followed by \<open>?\<close> or by the end of the string.\<close>

definition squareSize :: "string \<Rightarrow> (nat \<times> nat) option" where
  "squareSize s =
     (case digits1 s of
        None \<Rightarrow> None
      | Some (d, r) \<Rightarrow>
          if r = [] \<or> hd r = CHR ''?'' then Some (parseInt d, parseInt d) else None)"

definition dimsSquare :: "string \<Rightarrow> (nat \<times> nat) option" where
  "dimsSquare s = (case dropPrefix ''picsum.photos/'' s of None \<Rightarrow> None | Some r \<Rightarrow> squareSize r)"

definition toDimensions :: "nat \<times> nat \<Rightarrow> dimensions" where
  "toDimensions wh = \<lparr>width = fst wh, height = snd wh\<rparr>"

definition extractDimensions :: "string \<Rightarrow> dimensions option" where
  "extractDimensions u =
     (case firstMatch dimsPlain u of
        Some wh \<Rightarrow> Some (toDimensions wh)
      | None \<Rightarrow>
          (case firstMatch dimsSeed u of
             Some wh \<Rightarrow> Some (toDimensions wh)
           | None \<Rightarrow>
               (case firstMatch dimsSquare u of
                  Some wh \<Rightarrow> Some (toDimensions wh)
                | None \<Rightarrow> None)))"

text \<open>\<open>extractSeed\<close>: \<open>picsum\.photos\/seed\/([^\/\?]+)\<close>.\<close>

definition seedAt :: "string \<Rightarrow> string option" where
  "seedAt s =
     (case dropPrefix ''picsum.photos/seed/'' s of
        None \<Rightarrow> None
      | Some r \<Rightarrow>
          if takeWhile (\<lambda>c. c \<noteq> CHR ''/'' \<and> c \<noteq> CHR ''?'') r = [] then None
          else Some (takeWhile (\<lambda>c. c \<noteq> CHR ''/'' \<and> c \<noteq> CHR ''?'') r))"

definition extractSeed :: "string \<Rightarrow> string option" where
  "extractSeed u = firstMatch seedAt u"

subsection \<open>The traversal\<close>

definition parseImageUrl ::
  "string \<Rightarrow> string \<Rightarrow> string \<Rightarrow> jsobject \<Rightarrow> nat \<Rightarrow> ImageUrlInfo option" where
  "parseImageUrl u p key obj idx =
     (case extractDimensions u of
        None \<Rightarrow> None
      | Some dims \<Rightarrow>
          Some \<lparr>url = u, path = p, fieldName = key, contextObj = Some obj,
                dimensions = dims, seed = extractSeed u, itemIndex = idx\<rparr>)"

text \<open>The decimal digits of an array index.\<close>

function showNat :: "nat \<Rightarrow> string" where
  "showNat n = (if n < 10 then [char_of (48 + n)]
                else showNat (n div 10) @ [char_of (48 + n mod 10)])"
  by pat_completeness auto
termination
  by (relation "measure id") auto

definition itemPath :: "string \<Rightarrow> nat \<Rightarrow> string" where
  "itemPath currentPath i =
     (if currentPath \<noteq> [] then currentPath @ ''['' @ showNat i @ '']''
      else ''['' @ showNat i @ '']'')"

definition keyPath :: "string \<Rightarrow> string \<Rightarrow> string" where
  "keyPath currentPath key = (if currentPath \<noteq> [] then currentPath @ ''.'' @ key else key)"

text \<open>
  \<open>traverseObject\<close>, returning the occurrences it pushes on \<open>results\<close>, in order.
  \<open>pos\<close> is the position of the value in the document (the \<open>oid\<close> of an object);
  \<open>traverseItems\<close> is the loop over an array from index \<open>i\<close>, \<open>traverseEntries\<close> the
  loop over the entries of the object \<open>obj\<close> from entry number \<open>k\<close>.
\<close>

fun traverseObject :: "json \<Rightarrow> nat list \<Rightarrow> string \<Rightarrow> nat \<Rightarrow> ImageUrlInfo list"
  and traverseItems :: "json list \<Rightarrow> nat list \<Rightarrow> string \<Rightarrow> nat \<Rightarrow> ImageUrlInfo list"
  and traverseEntries ::
    "(string \<times> json) list \<Rightarrow> jsobject \<Rightarrow> string \<Rightarrow> nat \<Rightarrow> nat \<Rightarrow> ImageUrlInfo list"
where
  "traverseObject (JArr items) pos currentPath idx = traverseItems items pos currentPath 0"
| "traverseObject (JObj kvs) pos currentPath idx =
     traverseEntries kvs \<lparr>oid = pos, entries = kvs\<rparr> currentPath idx 0"
| "traverseObject JNull pos currentPath idx = []"
| "traverseObject (JBool b) pos currentPath idx = []"
| "traverseObject (JNum n) pos currentPath idx = []"
| "traverseObject (JStr s) pos currentPath idx = []"
| "traverseItems [] pos currentPath i = []"
| "traverseItems (item # items) pos currentPath i =
     traverseObject item (pos @ [i]) (itemPath currentPath i) i
     @ traverseItems items pos currentPath (Suc i)"
| "traverseEntries [] obj currentPath idx k = []"
| "traverseEntries ((key, v) # kvs) obj currentPath idx k =
     (case v of
        JStr s \<Rightarrow>
          if extractorIsPicsumUrl s then
            (case parseImageUrl s (keyPath currentPath key) key obj idx of
               Some info \<Rightarrow> [info]
             | None \<Rightarrow> [])
          else []
      | JArr items \<Rightarrow> traverseObject v (oid obj @ [k]) (keyPath currentPath key) idx
      | JObj es \<Rightarrow> traverseObject v (oid obj @ [k]) (keyPath currentPath key) idx
      | _ \<Rightarrow> [])
     @ traverseEntries kvs obj currentPath idx (Suc k)"

text \<open>\<open>extractPicsumUrls\<close>: the occurrences (\<open>images\<close>) and their number
  (\<open>totalFound\<close>).\<close>

definition extractedImages :: "json \<Rightarrow> ImageUrlInfo list" where
  "extractedImages data = traverseObject data [] [] 0"



section \<open>DescriptionGenerator\<close>

text \<open>\<open>FIELD_TYPE_MAPPING\<close>, in the order of its declaration (the order of
  \<open>Object.entries\<close>).\<close>

definition FIELD_TYPE_MAPPING :: "(string \<times> string) list" where
  "FIELD_TYPE_MAPPING =
     [(''product'', ''professional product photography''),
      (''item'', ''clean product shot''),
      (''article'', ''item showcase''),
      (''goods'', ''commercial product''),
      (''avatar'', ''professional headshot portrait''),
      (''profile'', ''portrait photography''),
      (''user'', ''person portrait''),
      (''author'', ''professional author photo''),
      (''customer'', ''friendly customer portrait''),
      (''logo'', ''modern logo design''),
      (''brand'', ''brand identity''),
      (''company'', ''corporate branding''),
      (''banner'', ''professional banner design''),
      (''header'', ''website header image''),
      (''background'', ''clean background texture''),
      (''hero'', ''hero section image''),
      (''thumbnail'', ''preview image''),
      (''cover'', ''cover image design''),
      (''featured'', ''featured content image''),
      (''location'', ''beautiful location photography''),
      (''place'', ''scenic place photograph''),
      (''destination'', ''travel destination''),
      (''venue'', ''venue photography''),
      (''shop'', ''retail store interior''),
      (''restaurant'', ''restaurant ambiance''),
      (''hotel'', ''luxury hotel interior''),
      (''food'', ''appetizing food photography''),
      (''dish'', ''gourmet dish presentation''),
      (''recipe'', ''food styling photography''),
      (''menu'', ''restaurant menu photography''),
      (''fashion'', ''fashion photography''),
      (''clothing'', ''clothing product shot''),
      (''accessory'', ''fashion accessory''),
      (''tech'', ''modern technology product''),
      (''gadget'', ''tech gadget photography''),
      (''sport'', ''sports equipment''),
      (''fitness'', ''fitness and wellness''),
      (''beauty'', ''beauty product photography''),
      (''home'', ''home interior design''),
      (''garden'', ''garden and landscape''),
      (''car'', ''automotive photography''),
      (''book'', ''book cover design''),
      (''art'', ''artistic photography''),
      (''music'', ''music related imagery'')]"

definition ITALIAN_STYLE_ADDITIONS :: "(string \<times> string list) list" where
  "ITALIAN_STYLE_ADDITIONS =
     [(''italian_context'',
        [''in Italian style'', ''with Italian elegance'', ''Italian design aesthetic'',
         ''Mediterranean style'', ''classic Italian'']),
      (''food'',
        [''authentic Italian cuisine'', ''traditional Italian dish'',
         ''Italian culinary tradition'', ''regional Italian specialty'']),
      (''fashion'',
        [''Italian fashion style'', ''Milano fashion design'', ''Italian elegance'',
         ''made in Italy style'']),
      (''location'',
        [''Italian landscape'', ''Italian architecture'', ''Italian piazza'',
         ''Mediterranean setting''])]"

text \<open>\<open>DescriptionOptions\<close>: every field is optional; \<open>maxPromptLength\<close> is an
  integer.\<close>

record DescriptionOptions =
  language :: "string option"
  optStyle :: "string option"
  includeBackground :: "bool option"
  maxPromptLength :: "int option"

text \<open>\<open>normalizeOptions\<close>: \<open>||\<close> replaces a missing, empty or zero value, \<open>??\<close> a
  missing one. The result has every field; it is a \<open>DescriptionOptions\<close> again.\<close>

definition normalizeOptions :: "DescriptionOptions \<Rightarrow> DescriptionOptions" where
  "normalizeOptions options =
     \<lparr>language = Some (case language options of
                         None \<Rightarrow> ''italian''
                       | Some l \<Rightarrow> if l = [] then ''italian'' else l),
      optStyle = Some (case optStyle options of
                         None \<Rightarrow> ''professional''
                       | Some s \<Rightarrow> if s = [] then ''professional'' else s),
      includeBackground = Some (case includeBackground options of None \<Rightarrow> True | Some b \<Rightarrow> b),
      maxPromptLength = Some (case maxPromptLength options of
                                None \<Rightarrow> 200
                              | Some m \<Rightarrow> if m = 0 then 200 else m)\<rparr>"

subsection \<open>String helpers\<close>

text \<open>The class \<open>\w\<close>.\<close>

definition isWordChar :: "char \<Rightarrow> bool" where
  "isWordChar c =
     (let n = (of_char c :: nat) in
      (48 \<le> n \<and> n \<le> 57) \<or> (65 \<le> n \<and> n \<le> 90) \<or> (97 \<le> n \<and> n \<le> 122) \<or> n = 95)"

definition trim :: "string \<Rightarrow> string" where
  "trim s = rev (dropWhile isSpace (rev (dropWhile isSpace s)))"

text \<open>\<open>s.replace(/\s+/g, ' ')\<close>: every run of white space becomes one space.\<close>

function collapseSpaces :: "string \<Rightarrow> string" where
  "collapseSpaces [] = []"
| "collapseSpaces (c # cs) =
     (if isSpace c then CHR '' '' # collapseSpaces (dropWhile isSpace cs)
      else c # collapseSpaces cs)"
  by pat_completeness auto
termination
  by (relation "measure length") (auto simp: length_dropWhile_le le_imp_less_Suc)

text \<open>\<open>[...new Set(xs)]\<close>: the first occurrence of each element, in order.\<close>

definition uniqueInOrder :: "'a list \<Rightarrow> 'a list" where
  "uniqueInOrder xs = rev (remdups (rev xs))"

subsection \<open>The context of an occurrence\<close>

definition analyzeFieldName :: "string \<Rightarrow> string list \<times> rat" where
  "analyzeFieldName fname =
     (let name = toLowerCase fname;
          hits = filter (\<lambda>key. str_includes name key) (map fst FIELD_TYPE_MAPPING);
          c1 = 1 / 10 + 2 / 10 * of_nat (length hits);
          (kw2, c2) = (if str_includes name ''thumb''
                       then (hits @ [''thumbnail'', ''small''], c1 + 3 / 10) else (hits, c1));
          (kw3, c3) = (if str_includes name ''_1x1'' \<or> str_includes name ''square''
                       then (kw2 @ [''square'', ''centered''], c2 + 2 / 10) else (kw2, c2));
          (kw4, c4) = (if str_includes name ''banner'' \<or> str_includes name ''header''
                       then (kw3 @ [''banner'', ''wide'', ''header''], c3 + 3 / 10)
                       else (kw3, c3))
      in (kw4, c4))"

definition commonWords :: "string list" where
  "commonWords =
     [''the'', ''a'', ''an'', ''and'', ''or'', ''but'', ''in'', ''on'', ''at'', ''to'', ''for'',
      ''of'', ''with'', ''by'', ''il'', ''la'', ''le'', ''lo'', ''gli'', ''un'', ''una'', ''e'',
      ''o'', ''ma'', ''in'', ''su'', ''a'', ''per'', ''di'', ''con'', ''da'']"

definition extractKeywords :: "string \<Rightarrow> string list" where
  "extractKeywords t =
     take 5 (filter (\<lambda>word. length word > 2 \<and> toLowerCase word \<notin> set commonWords)
               (splitOn (\<lambda>c. isSpace c \<or> c = CHR '','' \<or> c = CHR ''.'' \<or> c = CHR ''-'') t))"

definition descriptiveFields :: "string list" where
  "descriptiveFields =
     [''name'', ''title'', ''description'', ''caption'', ''alt'',
      ''product'', ''brand'', ''category'', ''type'', ''style'',
      ''location'', ''city'', ''address'', ''venue'', ''place'']"

text \<open>One step of the loop of \<open>analyzeContextData\<close> over \<open>descriptiveFields\<close>.\<close>

fun scanField ::
  "jsobject \<Rightarrow> string \<times> string list \<times> rat \<Rightarrow> string \<Rightarrow> string \<times> string list \<times> rat" where
  "scanField ctx (descr, keywords, conf) field =
     (case getProp ctx field of
        Some (JStr v) \<Rightarrow>
          if v \<noteq> [] then
            (descr @ '' '' @ toLowerCase v, keywords @ extractKeywords (toLowerCase v),
             conf + 1 / 10)
          else (descr, keywords, conf)
      | _ \<Rightarrow> (descr, keywords, conf))"

definition analyzeContextData :: "jsobject \<Rightarrow> string \<times> string list \<times> rat" where
  "analyzeContextData ctx =
     (case foldl (scanField ctx) ([], [], 2 / 10) descriptiveFields of
        (descr, kw1, c1) \<Rightarrow>
          (let (kw2, c2) =
                 (if truthy (getProp ctx ''price'') \<or> truthy (getProp ctx ''cost'')
                     \<or> truthy (getProp ctx ''amount'')
                  then (kw1 @ [''commercial'', ''product''], c1 + 1 / 10) else (kw1, c1));
               (kw3, c3) =
                 (if truthy (getProp ctx ''author'') \<or> truthy (getProp ctx ''creator'')
                     \<or> truthy (getProp ctx ''artist'')
                  then (kw2 @ [''creative'', ''professional''], c2 + 1 / 10) else (kw2, c2))
           in (trim descr, uniqueInOrder kw3, min c3 (5 / 10))))"

definition getGenericDescription :: "string \<Rightarrow> string" where
  "getGenericDescription fname =
     (let name = toLowerCase fname in
      if str_includes name ''thumb'' then ''thumbnail image''
      else if str_includes name ''banner'' then ''banner image''
      else if str_includes name ''avatar'' then ''profile picture''
      else if str_includes name ''logo'' then ''logo design''
      else if str_includes name ''background'' then ''background image''
      else ''professional image'')"

definition inferDataType :: "jsobject option \<Rightarrow> string" where
  "inferDataType ctx =
     (case ctx of
        None \<Rightarrow> ''unknown''
      | Some obj \<Rightarrow>
          (let fields = map fst (entries obj) in
           if ''price'' \<in> set fields \<and> ''name'' \<in> set fields then ''product''
           else if ''author'' \<in> set fields \<or> ''creator'' \<in> set fields then ''content''
           else if ''address'' \<in> set fields \<or> ''location'' \<in> set fields then ''place''
           else if ''email'' \<in> set fields \<or> ''phone'' \<in> set fields then ''person''
           else ''generic''))"

record ContextAnalysis =
  ctxDescription :: string
  ctxConfidence :: rat
  ctxKeywords :: "string list"
  dataType :: string

definition analyzeContext :: "ImageUrlInfo \<Rightarrow> ContextAnalysis" where
  "analyzeContext imageInfo =
     (case analyzeFieldName (fieldName imageInfo) of
        (fieldKeywords, fieldConfidence) \<Rightarrow>
          (case (case contextObj imageInfo of
                   None \<Rightarrow> ([], fieldKeywords, 5 / 10 + fieldConfidence)
                 | Some obj \<Rightarrow>
                     (case analyzeContextData obj of
                        (descr, kws, c) \<Rightarrow>
                          (descr, fieldKeywords @ kws, 5 / 10 + fieldConfidence + c))) of
             (descr, keywords, conf) \<Rightarrow>
               \<lparr>ctxDescription =
                  (if descr \<noteq> [] then descr else getGenericDescription (fieldName imageInfo)),
                ctxConfidence = min conf 1,
                ctxKeywords = uniqueInOrder keywords,
                dataType = inferDataType (contextObj imageInfo)\<rparr>))"

subsection \<open>Category and prompts\<close>

definition determineCategory :: "ImageUrlInfo \<Rightarrow> ContextAnalysis \<Rightarrow> string" where
  "determineCategory imageInfo ctx =
     (case filter (\<lambda>key. str_includes (toLowerCase (fieldName imageInfo)) key)
             (map fst FIELD_TYPE_MAPPING) of
        key # _ \<Rightarrow> key
      | [] \<Rightarrow>
          if ''food'' \<in> set (ctxKeywords ctx) \<or> ''dish'' \<in> set (ctxKeywords ctx) then ''food''
          else if ''fashion'' \<in> set (ctxKeywords ctx) \<or> ''clothing'' \<in> set (ctxKeywords ctx)
          then ''fashion''
          else if ''location'' \<in> set (ctxKeywords ctx) \<or> ''place'' \<in> set (ctxKeywords ctx)
          then ''location''
          else ''generic'')"

definition cleanDescription :: "string \<Rightarrow> string" where
  "cleanDescription d =
     trim (collapseSpaces (map (\<lambda>c. if isWordChar c \<or> isSpace c then c else CHR '' '') d))"

definition generateBasePrompt :: "ImageUrlInfo \<Rightarrow> ContextAnalysis \<Rightarrow> string \<Rightarrow> string" where
  "generateBasePrompt imageInfo ctx cat =
     (let fieldType = (case map_of FIELD_TYPE_MAPPING cat of
                         Some t \<Rightarrow> t
                       | None \<Rightarrow> ''professional photography'');
          p = (if ctxDescription ctx \<noteq> [] \<and> ctxConfidence ctx > 3 / 10
                  \<and> cleanDescription (ctxDescription ctx) \<noteq> []
               then cleanDescription (ctxDescription ctx) @ '', '' @ fieldType
               else fieldType);
          w = width (dimensions imageInfo);
          h = height (dimensions imageInfo)
      in if w = h then p @ '', square composition, centered''
         else if w > h * 2 then p @ '', wide banner format, horizontal composition''
         else if h > w then p @ '', vertical composition, portrait orientation''
         else p)"

text \<open>\<open>getItalianContext\<close>; \<open>rnd\<close> stands for the draw of \<open>Math.random\<close>: the index
  chosen is \<open>rnd mod contexts.length\<close>.\<close>

definition getItalianContext :: "string list \<Rightarrow> nat \<Rightarrow> string" where
  "getItalianContext keywords rnd =
     (case filter (\<lambda>(cat, contexts). \<exists>keyword\<in>set keywords. str_includes cat keyword)
             ITALIAN_STYLE_ADDITIONS of
        (cat, contexts) # _ \<Rightarrow> contexts ! (rnd mod length contexts)
      | [] \<Rightarrow> ''in Italian style'')"

text \<open>\<open>enhancePrompt\<close>. \<open>substring(0, n)\<close> is \<open>take n\<close>, with a negative \<open>n\<close> read
  as 0.\<close>

definition enhancePrompt :: "string \<Rightarrow> ContextAnalysis \<Rightarrow> DescriptionOptions \<Rightarrow> nat \<Rightarrow> string" where
  "enhancePrompt basePrompt ctx options rnd =
     (let e1 = (if optStyle options = Some ''professional''
                then basePrompt @ '', professional lighting, high quality, clean background''
                else if optStyle options = Some ''artistic''
                then basePrompt @ '', artistic composition, creative lighting, aesthetic''
                else if optStyle options = Some ''realistic''
                then basePrompt @ '', photorealistic, natural lighting, detailed''
                else if optStyle options = Some ''casual''
                then basePrompt @ '', casual style, natural look, everyday setting''
                else basePrompt);
          e2 = (if language options = Some ''italian'' \<and> ctxKeywords ctx \<noteq> []
                then e1 @ '', '' @ getItalianContext (ctxKeywords ctx) rnd else e1)
      in case maxPromptLength options of
           None \<Rightarrow> e2
         | Some m \<Rightarrow>
             if m \<noteq> 0 \<and> int (length e2) > m then take (nat (m - 3)) e2 @ ''...'' else e2)"

definition generateDescription :: "ImageUrlInfo \<Rightarrow> DescriptionOptions \<Rightarrow> nat \<Rightarrow> ImageDescription" where
  "generateDescription imageInfo options rnd =
     (let opts = normalizeOptions options;
          ctx = analyzeContext imageInfo;
          cat = determineCategory imageInfo ctx;
          basePrompt = generateBasePrompt imageInfo ctx cat
      in \<lparr>prompt = basePrompt,
          style = (case optStyle opts of Some s \<Rightarrow> s | None \<Rightarrow> []),
          category = cat,
          confidence = ctxConfidence ctx,
          baseContext = ctxDescription ctx,
          enhancedPrompt = enhancePrompt basePrompt ctx opts rnd\<rparr>)"

subsection \<open>Descriptions of all occurrences\<close>

text \<open>\<open>String(v)\<close> for a JSON value (\<open>parts.join('_')\<close> applies it to every part); an
  array is the comma-separated list of its elements, with \<open>null\<close> as the empty string.\<close>

definition showInt :: "int \<Rightarrow> string" where
  "showInt n = (if n < 0 then ''-'' @ showNat (nat (- n)) else showNat (nat n))"

fun intercalate :: "string \<Rightarrow> string list \<Rightarrow> string" where
  "intercalate sep [] = []"
| "intercalate sep [x] = x"
| "intercalate sep (x # y # ys) = x @ sep @ intercalate sep (y # ys)"

fun jsToString :: "json \<Rightarrow> string"
  and elementStrings :: "json list \<Rightarrow> string list"
where
  "jsToString JNull = ''null''"
| "jsToString (JBool b) = (if b then ''true'' else ''false'')"
| "jsToString (JNum n) = showInt n"
| "jsToString (JStr s) = s"
| "jsToString (JArr xs) = intercalate '','' (elementStrings xs)"
| "jsToString (JObj kvs) = ''[object Object]''"
| "elementStrings [] = []"
| "elementStrings (x # xs) = (if x = JNull then [] else jsToString x) # elementStrings xs"

definition generateContextKey :: "ImageUrlInfo \<Rightarrow> string" where
  "generateContextKey imageInfo =
     (let part = (\<lambda>field.
            case contextObj imageInfo of
              None \<Rightarrow> []
            | Some obj \<Rightarrow>
                (case getProp obj field of
                   None \<Rightarrow> []
                 | Some v \<Rightarrow> if truthy (Some v) then [jsToString v] else []));
          parts = part ''category'' @ part ''type'' @ part ''brand''
                  @ [showNat (width (dimensions imageInfo)) @ ''x''
                     @ showNat (height (dimensions imageInfo))];
          key = intercalate ''_'' parts
      in if key \<noteq> [] then key else ''generic'')"

text \<open>\<open>groupByContext\<close>: the \<open>Map\<close> as the list of its entries in insertion order.\<close>

fun addToGroup ::
  "(string \<times> ImageUrlInfo list) list \<Rightarrow> string \<Rightarrow> ImageUrlInfo \<Rightarrow> (string \<times> ImageUrlInfo list) list" where
  "addToGroup [] key img = [(key, [img])]"
| "addToGroup ((k, imgs) # rest) key img =
     (if k = key then (k, imgs @ [img]) # rest else (k, imgs) # addToGroup rest key img)"

definition groupByContext :: "ImageUrlInfo list \<Rightarrow> (string \<times> ImageUrlInfo list) list" where
  "groupByContext images = foldl (\<lambda>gs img. addToGroup gs (generateContextKey img) img) [] images"

text \<open>
  \<open>generateDescriptions\<close>: group after group, image after image, the description of the
  image is stored under its path. The shared context computed for a group is passed as
  an option \<open>baseContext\<close>, which \<open>normalizeOptions\<close> drops: it has no effect and is not
  modelled. \<open>rnd k\<close> is the random draw of the \<open>k\<close>-th call of \<open>generateDescription\<close>.
\<close>

fun describeAll ::
  "DescriptionOptions \<Rightarrow> (nat \<Rightarrow> nat) \<Rightarrow> ImageUrlInfo list \<Rightarrow> nat \<Rightarrow> descriptions \<Rightarrow> descriptions" where
  "describeAll opts rnd [] k descs = descs"
| "describeAll opts rnd (img # rest) k descs =
     describeAll opts rnd rest (Suc k)
       (descs(path img \<mapsto> generateDescription img opts (rnd k)))"

definition generateDescriptions ::
  "ImageUrlInfo list \<Rightarrow> DescriptionOptions \<Rightarrow> (nat \<Rightarrow> nat) \<Rightarrow> descriptions" where
  "generateDescriptions images options rnd =
     describeAll (normalizeOptions options) rnd
       (concat (map snd (groupByContext images))) 0 Map.empty"

subsection \<open>The document with the two fields \<open>thumb\<close> and \<open>banner\<close>\<close>

definition thumbBannerDoc :: json where
  "thumbBannerDoc =
     JObj [(''thumb'', JStr ''https://picsum.photos/200/200''),
           (''banner'', JStr ''https://picsum.photos/200/200'')]"

definition tbObject :: jsobject where
  "tbObject =
     \<lparr>oid = [],
      entries = [(''thumb'', JStr ''https://picsum.photos/200/200''),
                 (''banner'', JStr ''https://picsum.photos/200/200'')]\<rparr>"

definition tbThumb :: ImageUrlInfo where
  "tbThumb =
     \<lparr>url = ''https://picsum.photos/200/200'', path = ''thumb'', fieldName = ''thumb'',
      contextObj = Some tbObject, dimensions = \<lparr>width = 200, height = 200\<rparr>,
      seed = None, itemIndex = 0\<rparr>"

definition tbBanner :: ImageUrlInfo where
  "tbBanner =
     \<lparr>url = ''https://picsum.photos/200/200'', path = ''banner'', fieldName = ''banner'',
      contextObj = Some tbObject, dimensions = \<lparr>width = 200, height = 200\<rparr>,
      seed = None, itemIndex = 0\<rparr>"

text \<open>No option given, and a random source that always draws the first element.\<close>

definition defaultOptions :: DescriptionOptions where
  "defaultOptions =
     \<lparr>language = None, optStyle = None, includeBackground = None, maxPromptLength = None\<rparr>"

definition firstChoice :: "nat \<Rightarrow> nat" where
  "firstChoice k = 0"

text \<open>The descriptions \<open>generateDescription\<close> computes for the two occurrences.\<close>

definition tbThumbDescription :: ImageDescription where
  "tbThumbDescription =
     \<lparr>prompt = ''thumbnail image, professional photography, square composition, centered'',
      style = ''professional'', category = ''generic'', confidence = 1,
      baseContext = ''thumbnail image'',
      enhancedPrompt = ''thumbnail image, professional photography, square composition, centered, professional lighting, high quality, clean background, in Italian style''\<rparr>"

definition tbBannerDescription :: ImageDescription where
  "tbBannerDescription =
     \<lparr>prompt = ''banner image, professional banner design, square composition, centered'',
      style = ''professional'', category = ''banner'', confidence = 1,
      baseContext = ''banner image'',
      enhancedPrompt = ''banner image, professional banner design, square composition, centered, professional lighting, high quality, clean background, in Italian style''\<rparr>"

text \<open>A descriptions map that gives both occurrences one description.\<close>

definition tbSameDescs :: descriptions where
  "tbSameDescs = [''thumb'' \<mapsto> tbThumbDescription, ''banner'' \<mapsto> tbThumbDescription]"

text \<open>The group the analyzer builds from them under \<open>tbSameDescs\<close>.\<close>

definition tbGroup :: ProcessingGroup where
  "tbGroup =
     \<lparr>masterImageId = ''thumb'',
      groupDescription = Some tbThumbDescription,
      groupTargetDimensions = \<lparr>width = 200, height = 200\<rparr>,
      variants =
        [\<lparr>imageId = ''thumb'', processingType = Generate, sourceImageId = None,
          targetDimensions = \<lparr>width = 200, height = 200\<rparr>, planCropRegion = None,
          description = Some tbThumbDescription, priority = 1, estimatedCost = 1\<rparr>,
         \<lparr>imageId = ''banner'', processingType = Reuse, sourceImageId = Some ''thumb'',
          targetDimensions = \<lparr>width = 200, height = 200\<rparr>, planCropRegion = None,
          description = Some tbThumbDescription,
          priority = calculatePriority tbBanner tbThumbDescription,
          estimatedCost = 1 / 10\<rparr>],
      totalCost = 11 / 10\<rparr>"


section \<open>UrlReplacer\<close>

text \<open>A \<open>Map<string, string>\<close> is the list of its entries in insertion order (the
  order of \<open>entries()\<close>), with distinct keys; \<open>get\<close> is \<open>map_of\<close>.\<close>

type_synonym urlMap = "(string \<times> string) list"

datatype replacementType = Direct | Variant | Fallback

record UrlMapping =
  originalUrl :: string
  newUrl :: string
  cdnUrl :: "string option"
  mappingPath :: string
  mappingFieldName :: string
  mappingItemIndex :: nat
  replacementType :: replacementType

text \<open>\<open>ReplacementResult\<close>; \<open>'d\<close> is the type of the document in \<open>modifiedData\<close>.\<close>

record 'd ReplacementResult =
  success :: bool
  replacedCount :: nat
  failedCount :: nat
  mappings :: "UrlMapping list"
  modifiedData :: 'd
  errors :: "string list"

record ReplacementOptions =
  preferCdnUrls :: "bool option"
  preserveOriginalOnFailure :: "bool option"
  validateUrls :: "bool option"
  backupOriginal :: "bool option"
  logReplacements :: "bool option"

text \<open>\<open>Required<ReplacementOptions>\<close>, the result of \<open>normalizeOptions\<close>.\<close>

record RequiredOptions =
  preferCdn :: bool
  preserveOriginal :: bool
  validate :: bool
  backup :: bool
  logResults :: bool

definition normalizeReplacementOptions :: "ReplacementOptions \<Rightarrow> RequiredOptions" where
  "normalizeReplacementOptions options =
     \<lparr>preferCdn = (case preferCdnUrls options of None \<Rightarrow> True | Some b \<Rightarrow> b),
      preserveOriginal = (case preserveOriginalOnFailure options of None \<Rightarrow> False | Some b \<Rightarrow> b),
      validate = (case validateUrls options of None \<Rightarrow> False | Some b \<Rightarrow> b),
      backup = (case backupOriginal options of None \<Rightarrow> True | Some b \<Rightarrow> b),
      logResults = (case logReplacements options of None \<Rightarrow> True | Some b \<Rightarrow> b)\<rparr>"

subsection \<open>The replacer's own URL tests\<close>

text \<open>\<open>UrlReplacer.isPicsumUrl\<close>: \<open>/https?:\/\/picsum\.photos/\<close>, case-sensitive.\<close>

definition replacerIsPicsumUrl :: "string \<Rightarrow> bool" where
  "replacerIsPicsumUrl u = anySuffix (\<lambda>s. picsumHost s \<noteq> None) u"

text \<open>
  \<open>normalizeUrl\<close>. \<open>/\?.*$/\<close> matches from the first \<open>?\<close> after which no line
  terminator stands (\<open>.\<close> does not match one, \<open>$\<close> is the end of the string);
  \<open>/\/$/\<close> is one final slash.
\<close>

definition isLineTerminator :: "char \<Rightarrow> bool" where
  "isLineTerminator c = ((of_char c :: nat) = 10 \<or> (of_char c :: nat) = 13)"

fun stripQuery :: "string \<Rightarrow> string" where
  "stripQuery [] = []"
| "stripQuery (c # cs) =
     (if c = CHR ''?'' \<and> list_all (\<lambda>x. \<not> isLineTerminator x) cs then []
      else c # stripQuery cs)"

definition dropFinalSlash :: "string \<Rightarrow> string" where
  "dropFinalSlash s = (if s \<noteq> [] \<and> last s = CHR ''/'' then butlast s else s)"

definition normalizeUrl :: "string \<Rightarrow> string" where
  "normalizeUrl u = dropFinalSlash (toLowerCase (stripQuery u))"

text \<open>\<open>UrlReplacer.extractDimensions\<close>: the seed segment is optional in both
  expressions; it is tried first.\<close>

definition dimsOptSeed :: "string \<Rightarrow> (nat \<times> nat) option" where
  "dimsOptSeed s =
     (case dropPrefix ''picsum.photos/'' s of
        None \<Rightarrow> None
      | Some r \<Rightarrow>
          (case seedSegment r of
             None \<Rightarrow> widthHeight r
           | Some r' \<Rightarrow> (case widthHeight r' of Some wh \<Rightarrow> Some wh | None \<Rightarrow> widthHeight r)))"

definition squareOptSeed :: "string \<Rightarrow> (nat \<times> nat) option" where
  "squareOptSeed s =
     (case dropPrefix ''picsum.photos/'' s of
        None \<Rightarrow> None
      | Some r \<Rightarrow>
          (case seedSegment r of
             None \<Rightarrow> squareSize r
           | Some r' \<Rightarrow> (case squareSize r' of Some wh \<Rightarrow> Some wh | None \<Rightarrow> squareSize r)))"

definition replacerExtractDimensions :: "string \<Rightarrow> dimensions option" where
  "replacerExtractDimensions u =
     (case firstMatch dimsOptSeed u of
        Some wh \<Rightarrow> Some (toDimensions wh)
      | None \<Rightarrow>
          (case firstMatch squareOptSeed u of
             Some wh \<Rightarrow> Some (toDimensions wh)
           | None \<Rightarrow> None))"

subsection \<open>Resolving one URL\<close>

text \<open>The loop of \<open>findVariantMapping\<close> over the entries of the mapping table.\<close>

fun variantLoop :: "string option \<Rightarrow> dimensions option \<Rightarrow> urlMap \<Rightarrow> string option" where
  "variantLoop originalSeed originalDimensions [] = None"
| "variantLoop originalSeed originalDimensions ((mappedOriginal, mappedNew) # rest) =
     (if originalSeed \<noteq> None \<and> extractSeed mappedOriginal = originalSeed then Some mappedNew
      else if originalDimensions \<noteq> None
              \<and> replacerExtractDimensions mappedOriginal = originalDimensions then Some mappedNew
      else variantLoop originalSeed originalDimensions rest)"

definition findVariantMapping :: "string \<Rightarrow> urlMap \<Rightarrow> string option" where
  "findVariantMapping u urlMappings =
     (if extractSeed u = None \<and> replacerExtractDimensions u = None then None
      else variantLoop (extractSeed u) (replacerExtractDimensions u) urlMappings)"

definition generateFallbackUrl :: "string \<Rightarrow> string" where
  "generateFallbackUrl u = u"

text \<open>A string that is defined and not empty.\<close>

fun truthyString :: "string option \<Rightarrow> bool" where
  "truthyString None = False"
| "truthyString (Some s) = (s \<noteq> [])"

text \<open>\<open>urlMappings.get(originalUrl) || urlMappings.get(normalizedUrl)\<close>.\<close>

definition directMapping :: "string \<Rightarrow> urlMap \<Rightarrow> string option" where
  "directMapping u urlMappings =
     (if truthyString (map_of urlMappings u) then map_of urlMappings u
      else map_of urlMappings (normalizeUrl u))"

text \<open>
  \<open>replaceUrl\<close>, without its assignment \<open>obj[key] = finalUrl\<close>: the first component of
  the value is the URL to assign, if any, and the traversal that calls \<open>replaceUrl\<close>
  assigns it. Nothing in its \<open>try\<close> block throws.
\<close>

definition replaceUrl ::
  "string \<Rightarrow> string \<Rightarrow> string \<Rightarrow> urlMap \<Rightarrow> urlMap option \<Rightarrow> 'd ReplacementResult \<Rightarrow>
   RequiredOptions \<Rightarrow> nat \<Rightarrow> string option \<times> 'd ReplacementResult" where
  "replaceUrl key u p urlMappings cdnMappings result options idx =
     (let (newUrl1, type1) =
            (if truthyString (directMapping u urlMappings)
             then (directMapping u urlMappings, Direct)
             else (findVariantMapping u urlMappings, Variant));
          (newUrl2, type2) =
            (if \<not> truthyString newUrl1 \<and> \<not> preserveOriginal options
             then (Some (generateFallbackUrl u), Fallback) else (newUrl1, type1));
          cdn = (case cdnMappings of None \<Rightarrow> None | Some m \<Rightarrow> map_of m u)
      in case newUrl2 of
           Some new \<Rightarrow>
             if new \<noteq> [] then
               (let finalUrl = (if preferCdn options \<and> cdn \<noteq> None then the cdn else new)
                in (Some finalUrl,
                    result\<lparr>mappings := mappings result @
                              [\<lparr>originalUrl = u, newUrl = finalUrl, cdnUrl = cdn,
                                mappingPath = p, mappingFieldName = key,
                                mappingItemIndex = idx, replacementType = type2\<rparr>],
                           replacedCount := replacedCount result + 1\<rparr>))
             else
               (None,
                result\<lparr>errors := (if preserveOriginal options
                                   then errors result @
                                          [''No replacement found for URL: '' @ u @ '' at '' @ p]
                                   else errors result),
                       failedCount := failedCount result + 1\<rparr>)
         | None \<Rightarrow>
             (None,
              result\<lparr>errors := (if preserveOriginal options
                                 then errors result @
                                        [''No replacement found for URL: '' @ u @ '' at '' @ p]
                                 else errors result),
                     failedCount := failedCount result + 1\<rparr>))"

subsection \<open>The traversal, on the document as a tree\<close>

text \<open>The arguments every call of the traversal passes on unchanged.\<close>

record ReplacementEnv =
  envUrlMappings :: urlMap
  envCdnMappings :: "urlMap option"
  envOptions :: RequiredOptions

text \<open>
  \<open>performReplacements\<close> on a tree-shaped document: the assignment to a field of an
  object changes that entry of the tree, and the function returns the changed tree with
  the result record. \<open>replaceItems\<close> is the loop over an array from index \<open>i\<close>,
  \<open>replaceEntries\<close> the loop over the entries of an object.
\<close>

fun performReplacements ::
    "ReplacementEnv \<Rightarrow> json \<Rightarrow> string \<Rightarrow> 'd ReplacementResult \<Rightarrow> nat \<Rightarrow>
     json \<times> 'd ReplacementResult"
  and replaceItems ::
    "ReplacementEnv \<Rightarrow> json list \<Rightarrow> string \<Rightarrow> 'd ReplacementResult \<Rightarrow> nat \<Rightarrow>
     json list \<times> 'd ReplacementResult"
  and replaceEntries ::
    "ReplacementEnv \<Rightarrow> (string \<times> json) list \<Rightarrow> string \<Rightarrow> 'd ReplacementResult \<Rightarrow> nat \<Rightarrow>
     (string \<times> json) list \<times> 'd ReplacementResult"
where
  "performReplacements env (JArr items) currentPath result idx =
     (case replaceItems env items currentPath result 0 of
        (items', r) \<Rightarrow> (JArr items', r))"
| "performReplacements env (JObj kvs) currentPath result idx =
     (case replaceEntries env kvs currentPath result idx of
        (kvs', r) \<Rightarrow> (JObj kvs', r))"
| "performReplacements env v currentPath result idx = (v, result)"
| "replaceItems env [] currentPath result i = ([], result)"
| "replaceItems env (item # items) currentPath result i =
     (case performReplacements env item (itemPath currentPath i) result i of
        (item', r1) \<Rightarrow>
          (case replaceItems env items currentPath r1 (Suc i) of
             (items', r2) \<Rightarrow> (item' # items', r2)))"
| "replaceEntries env [] currentPath result idx = ([], result)"
| "replaceEntries env ((key, v) # kvs) currentPath result idx =
     (case (case v of
              JStr s \<Rightarrow>
                if replacerIsPicsumUrl s then
                  (case replaceUrl key s (keyPath currentPath key) (envUrlMappings env)
                          (envCdnMappings env) result (envOptions env) idx of
                     (Some finalUrl, r) \<Rightarrow> (JStr finalUrl, r)
                   | (None, r) \<Rightarrow> (v, r))
                else (v, result)
            | JArr items \<Rightarrow> performReplacements env v (keyPath currentPath key) result idx
            | JObj es \<Rightarrow> performReplacements env v (keyPath currentPath key) result idx
            | _ \<Rightarrow> (v, result)) of
        (v', r1) \<Rightarrow>
          (case replaceEntries env kvs currentPath r1 idx of
             (kvs', r2) \<Rightarrow> ((key, v') # kvs', r2)))"

text \<open>
  \<open>replaceUrls\<close> on a tree-shaped document. The deep copy of a tree is an equal tree
  (who owns it is the subject of the store model below). \<open>validation\<close> stands for the
  network check of \<open>validateReplacementUrls\<close>: the error messages it appends for the
  recorded mappings. Logging is not modelled, and nothing in the \<open>try\<close> block throws.
\<close>

definition replaceUrls ::
  "json \<Rightarrow> urlMap \<Rightarrow> urlMap option \<Rightarrow> ReplacementOptions \<Rightarrow> (UrlMapping list \<Rightarrow> string list) \<Rightarrow>
   json ReplacementResult" where
  "replaceUrls data urlMappings cdnMappings options validation =
     (let opts = normalizeReplacementOptions options;
          env = \<lparr>envUrlMappings = urlMappings, envCdnMappings = cdnMappings,
                 envOptions = opts\<rparr>;
          result = \<lparr>success = False, replacedCount = 0, failedCount = 0, mappings = [],
                    modifiedData = data, errors = []\<rparr>
      in case performReplacements env data [] result 0 of
           (data', r1) \<Rightarrow>
             (let r2 = (if validate opts
                        then r1\<lparr>errors := errors r1 @ validation (mappings r1)\<rparr> else r1)
              in r2\<lparr>success := (failedCount r2 = 0 \<or> replacedCount r2 > 0),
                    modifiedData := data'\<rparr>))"

subsection \<open>Notions the properties are stated with\<close>





definition noValidation :: "UrlMapping list \<Rightarrow> string list" where
  "noValidation ms = []"

definition defaultReplacementOptions :: ReplacementOptions where
  "defaultReplacementOptions =
     \<lparr>preferCdnUrls = None, preserveOriginalOnFailure = None, validateUrls = None,
      backupOriginal = None, logReplacements = None\<rparr>"

definition imgDoc :: json where
  "imgDoc = JObj [(''img'', JStr ''https://picsum.photos/800/600'')]"

definition cdnOnly :: urlMap where
  "cdnOnly = [(''https://picsum.photos/800/600'', ''https://cdn.example/x.png'')]"


section \<open>The store: the document as objects that are shared and changed in place\<close>

text \<open>
  For ownership the document is modelled as JavaScript holds it: a value is a primitive
  or a reference, and the store maps a reference to the array, object or \<open>Date\<close> it
  names. Assigning to a field of an object changes the store at the object's reference,
  for every holder of that reference. References are names only; a new one is the
  counter \<open>fresh\<close>.
\<close>

datatype val = VNull | VBool bool | VNum int | VStr string | VRef nat

datatype cell = ObjCell "(string \<times> val) list" | ArrCell "val list" | DateCell int

record store =
  cells :: "nat \<Rightarrow> cell option"
  fresh :: nat

definition alloc :: "store \<Rightarrow> cell \<Rightarrow> val \<times> store" where
  "alloc s c = (VRef (fresh s), s\<lparr>cells := (cells s)(fresh s \<mapsto> c), fresh := Suc (fresh s)\<rparr>)"

text \<open>
  \<open>deepClone\<close>. The recursion follows references, so it need not end (a cyclic
  document): \<open>fuel\<close> bounds the depth of references followed, and \<open>None\<close> means the fuel
  ran out (or a reference names nothing). The copy of an array or object is allocated
  after the copies of its elements.
\<close>

fun deepClone :: "nat \<Rightarrow> store \<Rightarrow> val \<Rightarrow> (val \<times> store) option"
  and cloneItems :: "nat \<Rightarrow> store \<Rightarrow> val list \<Rightarrow> (val list \<times> store) option"
  and cloneEntries ::
    "nat \<Rightarrow> store \<Rightarrow> (string \<times> val) list \<Rightarrow> ((string \<times> val) list \<times> store) option"
where
  "deepClone 0 s (VRef a) = None"
| "deepClone (Suc n) s (VRef a) =
     (case cells s a of
        None \<Rightarrow> None
      | Some (DateCell t) \<Rightarrow> Some (alloc s (DateCell t))
      | Some (ArrCell vs) \<Rightarrow>
          (case cloneItems n s vs of
             None \<Rightarrow> None
           | Some (vs', s') \<Rightarrow> Some (alloc s' (ArrCell vs')))
      | Some (ObjCell kvs) \<Rightarrow>
          (case cloneEntries n s kvs of
             None \<Rightarrow> None
           | Some (kvs', s') \<Rightarrow> Some (alloc s' (ObjCell kvs'))))"
| "deepClone n s v = Some (v, s)"
| "cloneItems n s [] = Some ([], s)"
| "cloneItems n s (v # vs) =
     (case deepClone n s v of
        None \<Rightarrow> None
      | Some (v', s1) \<Rightarrow>
          (case cloneItems n s1 vs of
             None \<Rightarrow> None
           | Some (vs', s2) \<Rightarrow> Some (v' # vs', s2)))"
| "cloneEntries n s [] = Some ([], s)"
| "cloneEntries n s ((key, v) # kvs) =
     (case deepClone n s v of
        None \<Rightarrow> None
      | Some (v', s1) \<Rightarrow>
          (case cloneEntries n s1 kvs of
             None \<Rightarrow> None
           | Some (kvs', s2) \<Rightarrow> Some ((key, v') # kvs', s2)))"

text \<open>\<open>obj[key] = v\<close> for an object that has the field \<open>key\<close>.\<close>

fun updateEntry :: "(string \<times> val) list \<Rightarrow> string \<Rightarrow> val \<Rightarrow> (string \<times> val) list" where
  "updateEntry [] key v = [(key, v)]"
| "updateEntry ((k, w) # kvs) key v =
     (if k = key then (k, v) # kvs else (k, w) # updateEntry kvs key v)"

definition setField :: "store \<Rightarrow> nat \<Rightarrow> string \<Rightarrow> val \<Rightarrow> store" where
  "setField s a key v =
     (case cells s a of
        Some (ObjCell kvs) \<Rightarrow> s\<lparr>cells := (cells s)(a \<mapsto> ObjCell (updateEntry kvs key v))\<rparr>
      | _ \<Rightarrow> s)"

text \<open>
  \<open>performReplacements\<close> on the store. The state \<open>st\<close> is the store and the result
  record. The loop over an object runs over the entries read when it starts
  (\<open>Object.entries\<close>) and assigns to the object at reference \<open>a\<close>; arrays are never
  assigned to. Fuel as for \<open>deepClone\<close>.
\<close>

fun performReplacementsS ::
    "nat \<Rightarrow> ReplacementEnv \<Rightarrow> store \<times> 'd ReplacementResult \<Rightarrow> val \<Rightarrow> string \<Rightarrow> nat \<Rightarrow>
     (store \<times> 'd ReplacementResult) option"
  and replaceItemsS ::
    "nat \<Rightarrow> ReplacementEnv \<Rightarrow> store \<times> 'd ReplacementResult \<Rightarrow> val list \<Rightarrow> string \<Rightarrow> nat \<Rightarrow>
     (store \<times> 'd ReplacementResult) option"
  and replaceEntriesS ::
    "nat \<Rightarrow> ReplacementEnv \<Rightarrow> store \<times> 'd ReplacementResult \<Rightarrow> nat \<times> (string \<times> val) list \<Rightarrow>
     string \<Rightarrow> nat \<Rightarrow> (store \<times> 'd ReplacementResult) option"
where
  "performReplacementsS 0 env st (VRef a) currentPath idx = None"
| "performReplacementsS (Suc n) env st (VRef a) currentPath idx =
     (case cells (fst st) a of
        None \<Rightarrow> None
      | Some (DateCell t) \<Rightarrow> Some st
      | Some (ArrCell vs) \<Rightarrow> replaceItemsS n env st vs currentPath 0
      | Some (ObjCell kvs) \<Rightarrow> replaceEntriesS n env st (a, kvs) currentPath idx)"
| "performReplacementsS n env st v currentPath idx = Some st"
| "replaceItemsS n env st [] currentPath i = Some st"
| "replaceItemsS n env st (v # vs) currentPath i =
     (case performReplacementsS n env st v (itemPath currentPath i) i of
        None \<Rightarrow> None
      | Some st1 \<Rightarrow> replaceItemsS n env st1 vs currentPath (Suc i))"
| "replaceEntriesS n env st (a, []) currentPath idx = Some st"
| "replaceEntriesS n env st (a, (key, v) # kvs) currentPath idx =
     (case (case v of
              VStr u \<Rightarrow>
                if replacerIsPicsumUrl u then
                  (case replaceUrl key u (keyPath currentPath key) (envUrlMappings env)
                          (envCdnMappings env) (snd st) (envOptions env) idx of
                     (Some finalUrl, r) \<Rightarrow> Some (setField (fst st) a key (VStr finalUrl), r)
                   | (None, r) \<Rightarrow> Some (fst st, r))
                else Some st
            | VRef b \<Rightarrow> performReplacementsS n env st v (keyPath currentPath key) idx
            | _ \<Rightarrow> Some st) of
        None \<Rightarrow> None
      | Some st1 \<Rightarrow> replaceEntriesS n env st1 (a, kvs) currentPath idx)"

text \<open>
  \<open>replaceUrls\<close> on the store: \<open>modifiedData\<close> is a deep copy of \<open>data\<close> or, when
  \<open>backupOriginal\<close> is switched off, \<open>data\<close> itself; with \<open>backupOriginal\<close> a second
  copy (\<open>originalData\<close>) is made and not used.
\<close>

definition replaceUrlsS ::
  "nat \<Rightarrow> store \<Rightarrow> val \<Rightarrow> urlMap \<Rightarrow> urlMap option \<Rightarrow> ReplacementOptions \<Rightarrow>
   (UrlMapping list \<Rightarrow> string list) \<Rightarrow> (val ReplacementResult \<times> store) option" where
  "replaceUrlsS fuel s data urlMappings cdnMappings options validation =
     (let opts = normalizeReplacementOptions options;
          env = \<lparr>envUrlMappings = urlMappings, envCdnMappings = cdnMappings,
                 envOptions = opts\<rparr>
      in case (if backup opts then deepClone fuel s data else Some (data, s)) of
           None \<Rightarrow> None
         | Some (copy, s1) \<Rightarrow>
             (case (if backup opts then deepClone fuel s1 data else Some (VNull, s1)) of
                None \<Rightarrow> None
              | Some (originalData, s2) \<Rightarrow>
                  (case performReplacementsS fuel env
                          (s2, \<lparr>success = False, replacedCount = 0, failedCount = 0,
                                mappings = [], modifiedData = copy, errors = []\<rparr>)
                          copy [] 0 of
                     None \<Rightarrow> None
                   | Some (s3, r1) \<Rightarrow>
                       (let r2 = (if validate opts
                                  then r1\<lparr>errors := errors r1 @ validation (mappings r1)\<rparr>
                                  else r1)
                        in Some (r2\<lparr>success := (failedCount r2 = 0 \<or> replacedCount r2 > 0)\<rparr>,
                                 s3)))))"

subsection \<open>Well-formed stores\<close>

text \<open>The references a cell holds.\<close>

fun valRefs :: "val \<Rightarrow> nat set" where
  "valRefs (VRef a) = {a}"
| "valRefs v = {}"

fun cellRefs :: "cell \<Rightarrow> nat set" where
  "cellRefs (ObjCell kvs) = (\<Union>kv\<in>set kvs. valRefs (snd kv))"
| "cellRefs (ArrCell vs) = (\<Union>v\<in>set vs. valRefs v)"
| "cellRefs (DateCell t) = {}"

text \<open>
  A store built without cycles, with its references numbered so that every cell refers
  to cells of smaller number only (as a parser or \<open>deepClone\<close> builds it, elements
  before their container); every reference in use names a cell.
\<close>

definition wfStore :: "store \<Rightarrow> bool" where
  "wfStore s =
     (\<forall>a c. cells s a = Some c \<longrightarrow>
        a < fresh s \<and> (\<forall>b\<in>cellRefs c. b < a \<and> cells s b \<noteq> None))"

definition validVal :: "store \<Rightarrow> val \<Rightarrow> bool" where
  "validVal s v = (\<forall>a\<in>valRefs v. cells s a \<noteq> None)"

text \<open>
  \<open>grows s s'\<close>: \<open>s'\<close> is \<open>s\<close> with new cells added, and the new cells refer to new
  cells only. \<open>closedAbove k s\<close>: the cells from \<open>k\<close> on refer to cells from \<open>k\<close> on.
  \<open>frames k s s'\<close>: \<open>s'\<close> has the cells of \<open>s\<close>, with no reference added to any of them
  and those below \<open>k\<close> unchanged.
\<close>

definition grows :: "store \<Rightarrow> store \<Rightarrow> bool" where
  "grows s s' =
     (wfStore s' \<and> fresh s \<le> fresh s' \<and> (\<forall>a<fresh s. cells s' a = cells s a) \<and>
      (\<forall>a c. cells s' a = Some c \<longrightarrow> fresh s \<le> a \<longrightarrow> (\<forall>b\<in>cellRefs c. fresh s \<le> b)))"

definition closedAbove :: "nat \<Rightarrow> store \<Rightarrow> bool" where
  "closedAbove k s = (\<forall>a c. cells s a = Some c \<longrightarrow> k \<le> a \<longrightarrow> (\<forall>b\<in>cellRefs c. k \<le> b))"

definition frames :: "nat \<Rightarrow> store \<Rightarrow> store \<Rightarrow> bool" where
  "frames k s s' =
     (fresh s' = fresh s \<and> (\<forall>a. (cells s' a = None) = (cells s a = None)) \<and>
      (\<forall>a c c'. cells s a = Some c \<longrightarrow> cells s' a = Some c' \<longrightarrow> cellRefs c' \<subseteq> cellRefs c) \<and>
      (\<forall>a<k. cells s' a = cells s a))"

text \<open>The document \<open>{"img": "https://picsum.photos/800/600"}\<close> in a store.\<close>

definition imgStore :: store where
  "imgStore =
     \<lparr>cells = [0 \<mapsto> ObjCell [(''img'', VStr ''https://picsum.photos/800/600'')]],
      fresh = 1\<rparr>"

definition imgMappings :: urlMap where
  "imgMappings = [(''https://picsum.photos/800/600'', ''https://img.example/a.png'')]"

definition noBackup :: ReplacementOptions where
  "noBackup = defaultReplacementOptions\<lparr>backupOriginal := Some False\<rparr>"


section \<open>Properties of the analyzer\<close>

subsection \<open>The grouping loops\<close>

lemma scanOthers_inv:
  "\<exists>added. scanOthers descs img cd rest (grp, P) = (grp @ added, P \<union> path ` set added)
     \<and> set added \<subseteq> set rest \<and> distinct (map path added) \<and> path ` set added \<inter> P = {}
     \<and> (\<forall>x\<in>set added. descs (path x) \<noteq> None)"
proof (induction rest arbitrary: grp P)
  case Nil
  show ?case by (rule exI[of _ "[]"]) simp
next
  case (Cons other rest)
  show ?case
  proof (cases "path other \<in> P \<or> descs (path other) = None \<or>
      \<not> (calculateDescriptionSimilarity cd (the (descs (path other))) \<ge> SIMILARITY_THRESHOLD
                   \<or> calculateContextSimilarity img other \<ge> SIMILARITY_THRESHOLD)")
    case True
    then have eq: "scanOthers descs img cd (other # rest) (grp, P) = scanOthers descs img cd rest (grp, P)"
      by (auto split: option.splits)
    from Cons.IH[of grp P] obtain added where
      "scanOthers descs img cd rest (grp, P) = (grp @ added, P \<union> path ` set added)"
      "set added \<subseteq> set rest" "distinct (map path added)" "path ` set added \<inter> P = {}"
      "\<forall>x\<in>set added. descs (path x) \<noteq> None" by blast
    then show ?thesis unfolding eq by (intro exI[of _ added]) auto
  next
    case False
    then obtain od where od: "descs (path other) = Some od" and np: "path other \<notin> P" by auto
    with False have eq: "scanOthers descs img cd (other # rest) (grp, P)
        = scanOthers descs img cd rest (grp @ [other], insert (path other) P)"
      by auto
    from Cons.IH[of "grp @ [other]" "insert (path other) P"] obtain added where a:
      "scanOthers descs img cd rest (grp @ [other], insert (path other) P)
         = ((grp @ [other]) @ added, insert (path other) P \<union> path ` set added)"
      "set added \<subseteq> set rest" "distinct (map path added)"
      "path ` set added \<inter> insert (path other) P = {}"
      "\<forall>x\<in>set added. descs (path x) \<noteq> None" by blast
    show ?thesis unfolding eq
      using a od np by (intro exI[of _ "other # added"]) auto
  qed
qed

lemma groupLoop_inv:
  "\<exists>new. groupLoop descs images rest (grps, P)
            = (grps @ new, P \<union> path ` set rest \<union> path ` set (concat new))
     \<and> distinct (map path (concat new)) \<and> path ` set (concat new) \<inter> P = {}
     \<and> set (concat new) \<subseteq> set images \<union> set rest
     \<and> (\<forall>g\<in>set new. g \<noteq> [] \<and> (\<forall>x\<in>set g. descs (path x) \<noteq> None))
     \<and> (\<forall>x\<in>set rest. descs (path x) \<noteq> None \<longrightarrow> path x \<in> P \<union> path ` set (concat new))"
proof (induction rest arbitrary: grps P)
  case Nil
  show ?case by (rule exI[of _ "[]"]) simp
next
  case (Cons img rest)
  show ?case
  proof (cases "path img \<in> P")
    case True
    then have eq: "groupLoop descs images (img # rest) (grps, P) = groupLoop descs images rest (grps, P)"
      by simp
    from Cons.IH[of grps P] obtain new where n:
      "groupLoop descs images rest (grps, P) = (grps @ new, P \<union> path ` set rest \<union> path ` set (concat new))"
      "distinct (map path (concat new))" "path ` set (concat new) \<inter> P = {}"
      "set (concat new) \<subseteq> set images \<union> set rest"
      "\<forall>g\<in>set new. g \<noteq> [] \<and> (\<forall>x\<in>set g. descs (path x) \<noteq> None)"
      "\<forall>x\<in>set rest. descs (path x) \<noteq> None \<longrightarrow> path x \<in> P \<union> path ` set (concat new)"
      by blast
    have p: "P \<union> path ` set rest \<union> path ` set (concat new)
        = P \<union> path ` set (img # rest) \<union> path ` set (concat new)"
      using True by auto
    have l: "\<forall>x\<in>set (img # rest). descs (path x) \<noteq> None \<longrightarrow> path x \<in> P \<union> path ` set (concat new)"
      using n(6) True by simp
    have s: "set (concat new) \<subseteq> set images \<union> set (img # rest)" using n(4) by auto
    show ?thesis unfolding eq n(1) p
      by (intro exI[of _ new] conjI refl n(2) n(3) n(5) l s)
  next
    case np: False
    show ?thesis
    proof (cases "descs (path img)")
      case None
      with np have eq: "groupLoop descs images (img # rest) (grps, P)
          = groupLoop descs images rest (grps, insert (path img) P)" by simp
      from Cons.IH[of grps "insert (path img) P"] obtain new where n:
        "groupLoop descs images rest (grps, insert (path img) P)
           = (grps @ new, insert (path img) P \<union> path ` set rest \<union> path ` set (concat new))"
        "distinct (map path (concat new))" "path ` set (concat new) \<inter> insert (path img) P = {}"
        "set (concat new) \<subseteq> set images \<union> set rest"
        "\<forall>g\<in>set new. g \<noteq> [] \<and> (\<forall>x\<in>set g. descs (path x) \<noteq> None)"
        "\<forall>x\<in>set rest. descs (path x) \<noteq> None \<longrightarrow> path x \<in> insert (path img) P \<union> path ` set (concat new)"
        by blast
      have p: "insert (path img) P \<union> path ` set rest \<union> path ` set (concat new)
          = P \<union> path ` set (img # rest) \<union> path ` set (concat new)" by auto
      have l: "\<forall>x\<in>set (img # rest). descs (path x) \<noteq> None \<longrightarrow> path x \<in> P \<union> path ` set (concat new)"
        using n(6) None by auto
      have s: "set (concat new) \<subseteq> set images \<union> set (img # rest)" using n(4) by auto
      have d: "path ` set (concat new) \<inter> P = {}" using n(3) by auto
      show ?thesis unfolding eq n(1) p
        by (intro exI[of _ new] conjI refl n(2) d n(5) l s)
    next
      case (Some cd)
      from scanOthers_inv[of descs img cd images "[img]" "insert (path img) P"]
      obtain added where a:
        "scanOthers descs img cd images ([img], insert (path img) P)
           = ([img] @ added, insert (path img) P \<union> path ` set added)"
        "set added \<subseteq> set images" "distinct (map path added)"
        "path ` set added \<inter> insert (path img) P = {}"
        "\<forall>x\<in>set added. descs (path x) \<noteq> None" by blast
      define cur where "cur = img # added"
      define P' where "P' = insert (path img) P \<union> path ` set added"
      have eq: "groupLoop descs images (img # rest) (grps, P)
          = groupLoop descs images rest (grps @ [cur], P')"
        using np Some a(1) by (simp add: cur_def P'_def)
      from Cons.IH[of "grps @ [cur]" P'] obtain new where n:
        "groupLoop descs images rest (grps @ [cur], P')
           = ((grps @ [cur]) @ new, P' \<union> path ` set rest \<union> path ` set (concat new))"
        "distinct (map path (concat new))" "path ` set (concat new) \<inter> P' = {}"
        "set (concat new) \<subseteq> set images \<union> set rest"
        "\<forall>g\<in>set new. g \<noteq> [] \<and> (\<forall>x\<in>set g. descs (path x) \<noteq> None)"
        "\<forall>x\<in>set rest. descs (path x) \<noteq> None \<longrightarrow> path x \<in> P' \<union> path ` set (concat new)"
        by blast
      have P'eq: "P' = P \<union> path ` set cur" by (auto simp: P'_def cur_def)
      have c1: "distinct (map path cur)" using a(3,4) by (auto simp: cur_def)
      have c2: "path ` set cur \<inter> P = {}" using a(4) np by (auto simp: cur_def)
      have c3: "\<forall>x\<in>set cur. descs (path x) \<noteq> None" using a(5) Some by (auto simp: cur_def)
      have c4: "set cur \<subseteq> set images \<union> set (img # rest)" using a(2) by (auto simp: cur_def)
      have c5: "path img \<in> path ` set cur" by (simp add: cur_def)
      have cc: "path ` set (concat (cur # new)) = path ` set cur \<union> path ` set (concat new)"
        by (simp add: image_Un)
      have r1: "(grps @ [cur]) @ new = grps @ (cur # new)" by simp
      have r2: "P' \<union> path ` set rest \<union> path ` set (concat new)
           = P \<union> path ` set (img # rest) \<union> (path ` set cur \<union> path ` set (concat new))"
        unfolding P'eq using c5 by auto
      have r3: "distinct (map path (concat (cur # new)))"
        using c1 n(2,3) unfolding P'eq by (simp add: Int_Un_distrib) blast
      have r4: "path ` set (concat (cur # new)) \<inter> P = {}"
        using c2 n(3) unfolding P'eq cc by blast
      have r5: "set (concat (cur # new)) \<subseteq> set images \<union> set (img # rest)"
        using c4 n(4) by auto
      have r6: "\<forall>g\<in>set (cur # new). g \<noteq> [] \<and> (\<forall>x\<in>set g. descs (path x) \<noteq> None)"
        using c3 n(5) by (auto simp: cur_def)
      have r7: "\<forall>x\<in>set (img # rest). descs (path x) \<noteq> None \<longrightarrow> path x \<in> P \<union> path ` set (concat (cur # new))"
        using n(6) c5 unfolding P'eq cc by auto
      show ?thesis unfolding eq n(1) r1 r2 cc[symmetric]
        by (intro exI[of _ "cur # new"] conjI refl r3 r4 r5 r6 r7)
    qed
  qed
qed

lemma groupBySimilarity_props:
  "distinct (map path (concat (groupBySimilarity images descs)))"
  "path ` set (concat (groupBySimilarity images descs)) = {p \<in> path ` set images. descs p \<noteq> None}"
  "set (concat (groupBySimilarity images descs)) \<subseteq> set images"
  "g \<in> set (groupBySimilarity images descs) \<Longrightarrow> g \<noteq> []"
  "g \<in> set (groupBySimilarity images descs) \<Longrightarrow> x \<in> set g \<Longrightarrow> descs (path x) \<noteq> None"
proof -
  from groupLoop_inv[of descs images images "[]" "{}"] obtain new where n:
    "groupLoop descs images images ([], {}) = ([] @ new, {} \<union> path ` set images \<union> path ` set (concat new))"
    "distinct (map path (concat new))"
    "set (concat new) \<subseteq> set images \<union> set images"
    "\<forall>g\<in>set new. g \<noteq> [] \<and> (\<forall>x\<in>set g. descs (path x) \<noteq> None)"
    "\<forall>x\<in>set images. descs (path x) \<noteq> None \<longrightarrow> path x \<in> {} \<union> path ` set (concat new)"
    by blast
  have g: "groupBySimilarity images descs = new" by (simp add: groupBySimilarity_def n(1))
  show "distinct (map path (concat (groupBySimilarity images descs)))" using n(2) g by simp
  show "set (concat (groupBySimilarity images descs)) \<subseteq> set images" using n(3) g by simp
  show "g \<in> set (groupBySimilarity images descs) \<Longrightarrow> g \<noteq> []" using n(4) g by blast
  show "g \<in> set (groupBySimilarity images descs) \<Longrightarrow> x \<in> set g \<Longrightarrow> descs (path x) \<noteq> None"
    using n(4) g by blast
  have "\<forall>x\<in>set (concat new). descs (path x) \<noteq> None" using n(4) by auto
  then show "path ` set (concat (groupBySimilarity images descs)) = {p \<in> path ` set images. descs p \<noteq> None}"
    unfolding g using n(3,5) by auto
qed

subsection \<open>Plans of a group\<close>

lemma createVariantPlan_Some:
  assumes "descs (path t) = Some d"
  shows "\<exists>p. createVariantPlan t m descs = Inr p \<and> imageId p = path t \<and> variantOf (path m) p
           \<and> targetDimensions p = dimensions t
           \<and> (dimensions t = dimensions m \<longrightarrow> processingType p = Reuse)"
proof (cases "dimensions t = dimensions m")
  case True
  with assms show ?thesis
    by (simp add: createVariantPlan_def Let_def variantOf_def planCost_def)
next
  case False
  with assms show ?thesis
    by (simp add: createVariantPlan_def Let_def variantOf_def planCost_def split: prod.splits)
qed

lemma variantPlans_ok:
  assumes "\<forall>x\<in>set g. descs (path x) \<noteq> None"
  shows "\<exists>plans. variantPlans g m descs = Inr plans
           \<and> map imageId plans = map path (filter (\<lambda>x. path x \<noteq> path m) g)
           \<and> (\<forall>p\<in>set plans. variantOf (path m) p
                 \<and> (targetDimensions p = dimensions m \<longrightarrow> processingType p = Reuse))"
  using assms
proof (induction g)
  case Nil
  then show ?case by simp
next
  case (Cons x g)
  then obtain plans where pl: "variantPlans g m descs = Inr plans"
     "map imageId plans = map path (filter (\<lambda>x. path x \<noteq> path m) g)"
     "\<forall>p\<in>set plans. variantOf (path m) p
         \<and> (targetDimensions p = dimensions m \<longrightarrow> processingType p = Reuse)" by auto
  show ?case
  proof (cases "path x = path m")
    case True
    with pl show ?thesis by simp
  next
    case False
    from Cons.prems obtain d where "descs (path x) = Some d" by auto
    from createVariantPlan_Some[of descs x d m, OF this] obtain p where
      "createVariantPlan x m descs = Inr p" "imageId p = path x" "variantOf (path m) p"
      "targetDimensions p = dimensions x"
      "dimensions x = dimensions m \<longrightarrow> processingType p = Reuse" by blast
    with pl False show ?thesis by simp
  qed
qed

lemma selectMasterImage_mem:
  "\<exists>m. selectMasterImage (x # xs) descs = Inr m \<and> m \<in> set (x # xs)"
proof -
  have "foldl (\<lambda>best current. if masterScore descs current > masterScore descs best then current else best) a ys \<in> set (a # ys)" for a ys
    by (induction ys arbitrary: a) (auto split: if_splits)
  then show ?thesis by simp
qed

lemma foldl_cost: "foldl (\<lambda>cost plan. cost + estimatedCost plan) a plans = a + sum_list (map estimatedCost plans)"
  by (induction plans arbitrary: a) (simp_all add: add.assoc)

lemma optimizeGroup_ok:
  assumes "g \<noteq> []" "\<forall>x\<in>set g. descs (path x) \<noteq> None"
  shows "\<exists>m plans pg. m \<in> set g \<and> optimizeGroup g descs = Inr pg
           \<and> masterImageId pg = path m
           \<and> groupTargetDimensions pg = dimensions m
           \<and> variants pg = masterPlan m descs # plans
           \<and> totalCost pg = sum_list (map estimatedCost (variants pg))
           \<and> map imageId plans = map path (filter (\<lambda>x. path x \<noteq> path m) g)
           \<and> (\<forall>p\<in>set plans. variantOf (path m) p
                 \<and> (targetDimensions p = dimensions m \<longrightarrow> processingType p = Reuse))"
proof (cases "\<exists>x. g = [x]")
  case True
  then obtain x where "g = [x]" by blast
  then show ?thesis
    by (intro exI[of _ x] exI[of _ "[]"]) (simp add: optimizeGroup_def masterPlan_def)
next
  case False
  with assms(1) obtain x xs where g: "g = x # xs" "xs \<noteq> []" by (cases g) auto
  from selectMasterImage_mem[of x xs descs] obtain m where
    m: "selectMasterImage g descs = Inr m" "m \<in> set g" unfolding g by blast
  from variantPlans_ok[OF assms(2), of m] obtain plans where
    pl: "variantPlans g m descs = Inr plans"
        "map imageId plans = map path (filter (\<lambda>x. path x \<noteq> path m) g)"
        "\<forall>p\<in>set plans. variantOf (path m) p
            \<and> (targetDimensions p = dimensions m \<longrightarrow> processingType p = Reuse)" by blast
  have "optimizeGroup g descs = Inr \<lparr>masterImageId = path m,
                         groupDescription = descs (path m),
                         groupTargetDimensions = dimensions m,
                         variants = masterPlan m descs # plans,
                         totalCost = foldl (\<lambda>cost plan. cost + estimatedCost plan) 1 plans\<rparr>"
    using g(2) m(1) pl(1) unfolding optimizeGroup_def g(1) by (cases xs) simp_all
  then have "optimizeGroup g descs = Inr \<lparr>masterImageId = path m,
                         groupDescription = descs (path m),
                         groupTargetDimensions = dimensions m,
                         variants = masterPlan m descs # plans,
                         totalCost = sum_list (map estimatedCost (masterPlan m descs # plans))\<rparr>"
    by (simp add: foldl_cost masterPlan_def)
  with m(2) pl(2,3) show ?thesis
    by (intro exI[of _ m] exI[of _ plans]) simp
qed

lemma filter_same_key:
  "distinct (map f xs) \<Longrightarrow> m \<in> set xs \<Longrightarrow> filter (\<lambda>x. f x = f m) xs = [m]"
proof (induction xs)
  case Nil then show ?case by simp
next
  case (Cons a xs)
  show ?case
  proof (cases "a = m")
    case True
    with Cons.prems have "f m \<notin> f ` set xs" by simp
    then have "\<forall>x\<in>set xs. f x \<noteq> f m" by (metis imageI)
    then have "filter (\<lambda>x. f x = f m) xs = []" by (simp add: filter_empty_conv)
    with True show ?thesis by simp
  next
    case False
    with Cons.prems have "m \<in> set xs" "f a \<noteq> f m" by force+
    with Cons show ?thesis by simp
  qed
qed

lemma mset_master_first:
  assumes "distinct (map f xs)" "m \<in> set xs"
  shows "mset (f m # map f (filter (\<lambda>x. f x \<noteq> f m) xs)) = mset (map f xs)"
proof -
  have "mset (map f xs) = mset (map f (filter (\<lambda>x. f x = f m) xs)) + mset (map f (filter (\<lambda>x. \<not> f x = f m) xs))"
    by (metis mset_append append.simps map_append  mset_filter multiset_partition mset_map image_mset_union)
  then show ?thesis using filter_same_key[OF assms] by simp
qed


subsection \<open>All groups\<close>

lemma list_all2_right_mem:
  "list_all2 P xs ys \<Longrightarrow> y \<in> set ys \<Longrightarrow> \<exists>x\<in>set xs. P x y"
  by (induction rule: list_all2_induct) auto

lemma optimizeAll_ok:
  assumes "\<forall>g\<in>set gs. g \<noteq> [] \<and> (\<forall>x\<in>set g. descs (path x) \<noteq> None)"
  shows "\<exists>pgs. optimizeAll gs descs = Inr pgs
           \<and> list_all2 (\<lambda>g pg. optimizeGroup g descs = Inr pg) gs pgs"
  using assms
proof (induction gs)
  case Nil
  then show ?case by simp
next
  case (Cons g gs)
  then obtain pgs where pgs: "optimizeAll gs descs = Inr pgs"
    "list_all2 (\<lambda>g pg. optimizeGroup g descs = Inr pg) gs pgs" by auto
  from Cons.prems have "g \<noteq> []" "\<forall>x\<in>set g. descs (path x) \<noteq> None" by auto
  from optimizeGroup_ok[OF this] obtain pg where "optimizeGroup g descs = Inr pg" by blast
  with pgs show ?case by simp
qed

text \<open>\<open>createProcessingPlan\<close> never throws: every group of \<open>groupBySimilarity\<close> is
  non-empty and each of its members has a description.\<close>

lemma createProcessingPlan_groups:
  "\<exists>pgs. createProcessingPlan images descs = Inr (calculateOptimizationResult pgs)
     \<and> list_all2 (\<lambda>g pg. optimizeGroup g descs = Inr pg) (groupBySimilarity images descs) pgs"
proof -
  have "\<forall>g\<in>set (groupBySimilarity images descs). g \<noteq> [] \<and> (\<forall>x\<in>set g. descs (path x) \<noteq> None)"
    using groupBySimilarity_props(4,5)[of _ images descs] by blast
  from optimizeAll_ok[OF this] obtain pgs where
    "optimizeAll (groupBySimilarity images descs) descs = Inr pgs"
    "list_all2 (\<lambda>g pg. optimizeGroup g descs = Inr pg) (groupBySimilarity images descs) pgs"
    by blast
  then show ?thesis by (auto simp: createProcessingPlan_def)
qed

lemma groups_calculateOptimizationResult [simp]:
  "groups (calculateOptimizationResult pgs) = pgs"
  by (simp add: calculateOptimizationResult_def Let_def)

lemma planIds_calculateOptimizationResult:
  "planIds (calculateOptimizationResult pgs) = concat (map (\<lambda>g. map imageId (variants g)) pgs)"
  by (simp add: planIds_def)

text \<open>The plans of one group carry the paths of the group's members, the master first.\<close>

lemma optimizeGroup_ids:
  assumes "optimizeGroup g descs = Inr pg" "g \<noteq> []" "\<forall>x\<in>set g. descs (path x) \<noteq> None"
    "distinct (map path g)"
  shows "mset (map imageId (variants pg)) = mset (map path g)"
proof -
  from optimizeGroup_ok[OF assms(2,3)] assms(1) obtain m plans where
    m: "m \<in> set g" "variants pg = masterPlan m descs # plans"
       "map imageId plans = map path (filter (\<lambda>x. path x \<noteq> path m) g)"
    by auto
  have "map imageId (variants pg) = path m # map path (filter (\<lambda>x. path x \<noteq> path m) g)"
    using m(2,3) by (simp add: masterPlan_def)
  then show ?thesis using mset_master_first[OF assms(4) m(1)] by simp
qed

lemma all_ids:
  assumes "list_all2 (\<lambda>g pg. optimizeGroup g descs = Inr pg) gs pgs"
    "\<forall>g\<in>set gs. g \<noteq> [] \<and> (\<forall>x\<in>set g. descs (path x) \<noteq> None)"
    "distinct (map path (concat gs))"
  shows "mset (concat (map (\<lambda>g. map imageId (variants g)) pgs)) = mset (map path (concat gs))"
  using assms
proof (induction rule: list_all2_induct)
  case Nil
  then show ?case by simp
next
  case (Cons g gs pg pgs)
  from Cons.prems have d: "distinct (map path g)" "distinct (map path (concat gs))" by auto
  from Cons.prems have ne: "g \<noteq> []" "\<forall>x\<in>set g. descs (path x) \<noteq> None" by auto
  have "mset (map imageId (variants pg)) = mset (map path g)"
    by (rule optimizeGroup_ids[OF Cons.hyps(1) ne d(1)])
  moreover have "mset (concat (map (\<lambda>g. map imageId (variants g)) pgs)) = mset (map path (concat gs))"
    using Cons.IH Cons.prems d(2) by simp
  ultimately show ?case by simp
qed

lemma createProcessingPlan_ids:
  "\<exists>r. createProcessingPlan images descs = Inr r
     \<and> mset (planIds r) = mset (map path (concat (groupBySimilarity images descs)))"
proof -
  from createProcessingPlan_groups[of images descs] obtain pgs where pgs:
    "createProcessingPlan images descs = Inr (calculateOptimizationResult pgs)"
    "list_all2 (\<lambda>g pg. optimizeGroup g descs = Inr pg) (groupBySimilarity images descs) pgs"
    by blast
  have "\<forall>g\<in>set (groupBySimilarity images descs). g \<noteq> [] \<and> (\<forall>x\<in>set g. descs (path x) \<noteq> None)"
    using groupBySimilarity_props(4,5)[of _ images descs] by blast
  from all_ids[OF pgs(2) this groupBySimilarity_props(1)]
  show ?thesis using pgs(1) by (simp add: planIds_calculateOptimizationResult)
qed

lemma createProcessingPlan_id_set:
  "\<exists>r. createProcessingPlan images descs = Inr r \<and> distinct (planIds r)
     \<and> set (planIds r) = {p \<in> path ` set images. descs p \<noteq> None}"
proof -
  from createProcessingPlan_ids[of images descs] obtain r where r:
    "createProcessingPlan images descs = Inr r"
    "mset (planIds r) = mset (map path (concat (groupBySimilarity images descs)))" by blast
  have "distinct (planIds r)"
    using r(2) groupBySimilarity_props(1)[of images descs] by (metis mset_eq_imp_distinct_iff)
  moreover have "set (planIds r) = {p \<in> path ` set images. descs p \<noteq> None}"
    using mset_eq_setD[OF r(2)] groupBySimilarity_props(2)[of images descs] by simp
  ultimately show ?thesis using r(1) by blast
qed


subsection \<open>The example run\<close>







lemma ex_single_plan:
  "createProcessingPlan [exBig] exDescs = Inr (calculateOptimizationResult [exSingle])"
proof -
  have "groupBySimilarity [exBig] exDescs = [[exBig]]"
    by (simp add: groupBySimilarity_def exDescs_def exBig_def)
  moreover have "optimizeGroup [exBig] exDescs = Inr exSingle"
    by (simp add: optimizeGroup_def masterPlan_def exSingle_def exBig_def exDescs_def)
  ultimately show ?thesis by (simp add: createProcessingPlan_def)
qed

lemma createProcessingPlan_Nil:
  "createProcessingPlan [] descs = Inr (calculateOptimizationResult [])"
  by (simp add: createProcessingPlan_def groupBySimilarity_def)

lemma calculateOptimizationResult_Nil:
  "calculateOptimizationResult [] =
     \<lparr>groups = [], totalImages = 0, generatedImages = 0, resizedImages = 0,
      croppedImages = 0, reusedImages = 0, estimatedSavings = NaN\<rparr>"
  by (simp add: calculateOptimizationResult_def js_div_def countType_def)


subsection \<open>The claims about the analyzer\<close>

text \<open>
  C10. On the empty list of occurrences the analyzer returns no group and zero counts,
  and the savings are \<open>0 / 0\<close>, that is \<open>NaN\<close>: the division of
  \<open>calculateOptimizationResult\<close> has no guard for zero images.
\<close>

theorem empty_run_savings_NaN:
  "createProcessingPlan [] descs =
     Inr \<lparr>groups = [], totalImages = 0, generatedImages = 0, resizedImages = 0,
          croppedImages = 0, reusedImages = 0, estimatedSavings = NaN\<rparr>"
  by (simp add: createProcessingPlan_Nil calculateOptimizationResult_Nil)







subsection \<open>Costs and savings\<close>

lemma planCost_range: "0 < planCost t \<and> planCost t \<le> 1"
  by (cases t) (simp_all add: planCost_def)

lemma optimizeGroup_costs:
  assumes "optimizeGroup g descs = Inr pg" "g \<noteq> []" "\<forall>x\<in>set g. descs (path x) \<noteq> None"
  shows "variants pg \<noteq> []"
    and "totalCost pg = sum_list (map estimatedCost (variants pg))"
    and "estimatedCost (hd (variants pg)) = 1"
    and "\<forall>v\<in>set (variants pg). 0 \<le> estimatedCost v \<and> estimatedCost v \<le> 1"
proof -
  from optimizeGroup_ok[OF assms(2,3)] obtain m plans pg' where m:
    "optimizeGroup g descs = Inr pg'"
    "variants pg' = masterPlan m descs # plans"
    "totalCost pg' = sum_list (map estimatedCost (variants pg'))"
    "\<forall>p\<in>set plans. variantOf (path m) p
        \<and> (targetDimensions p = dimensions m \<longrightarrow> processingType p = Reuse)"
    by blast
  from m(1) assms(1) have pg: "pg' = pg" by simp
  show "variants pg \<noteq> []" using m(2) pg by simp
  show "totalCost pg = sum_list (map estimatedCost (variants pg))" using m(3) pg by simp
  show "estimatedCost (hd (variants pg)) = 1" using m(2) pg by (simp add: masterPlan_def)
  have "\<forall>p\<in>set plans. 0 \<le> estimatedCost p \<and> estimatedCost p \<le> 1"
    using m(4) planCost_range unfolding variantOf_def by (metis less_imp_le)
  then show "\<forall>v\<in>set (variants pg). 0 \<le> estimatedCost v \<and> estimatedCost v \<le> 1"
    using m(2) pg by (simp add: masterPlan_def)
qed

lemma sum_list_bounds:
  fixes f :: "'a \<Rightarrow> rat"
  assumes "\<forall>x\<in>set xs. 0 \<le> f x \<and> f x \<le> 1"
  shows "0 \<le> sum_list (map f xs) \<and> sum_list (map f xs) \<le> of_nat (length xs)"
  using assms
proof (induction xs)
  case Nil
  then show ?case by simp
next
  case (Cons a xs)
  then have "0 \<le> f a" "f a \<le> 1" "0 \<le> sum_list (map f xs)"
    "sum_list (map f xs) \<le> of_nat (length xs)" by simp_all
  then show ?case by simp
qed

text \<open>The fields of the result, for groups as \<open>optimizeGroup\<close> builds them.\<close>

lemma result_costs:
  assumes "list_all2 (\<lambda>g pg. optimizeGroup g descs = Inr pg) gs pgs"
    "\<forall>g\<in>set gs. g \<noteq> [] \<and> (\<forall>x\<in>set g. descs (path x) \<noteq> None)"
  shows "sum_list (map totalCost pgs) = sum_list (map estimatedCost (concat (map variants pgs)))
    \<and> (\<forall>v\<in>set (concat (map variants pgs)). 0 \<le> estimatedCost v \<and> estimatedCost v \<le> 1)
    \<and> ((\<forall>pg\<in>set pgs. length (variants pg) = 1) \<longrightarrow>
           sum_list (map totalCost pgs) = of_nat (length (concat (map variants pgs))))"
  using assms
proof (induction rule: list_all2_induct)
  case Nil
  show ?case by simp
next
  case (Cons g gs pg pgs)
  have ne: "g \<noteq> []" "\<forall>x\<in>set g. descs (path x) \<noteq> None"
   and rest: "\<forall>g\<in>set gs. g \<noteq> [] \<and> (\<forall>x\<in>set g. descs (path x) \<noteq> None)"
    using Cons.prems by auto
  note c = optimizeGroup_costs[OF Cons.hyps(1) ne]
  from Cons.IH[OF rest] have ih:
    "sum_list (map totalCost pgs) = sum_list (map estimatedCost (concat (map variants pgs)))"
    "\<forall>v\<in>set (concat (map variants pgs)). 0 \<le> estimatedCost v \<and> estimatedCost v \<le> 1"
    "(\<forall>pg\<in>set pgs. length (variants pg) = 1) \<longrightarrow>
           sum_list (map totalCost pgs) = of_nat (length (concat (map variants pgs)))"
    by blast+
  have 1: "sum_list (map totalCost (pg # pgs))
      = sum_list (map estimatedCost (concat (map variants (pg # pgs))))"
    using c(2) ih(1) by simp
  have 2: "\<forall>v\<in>set (concat (map variants (pg # pgs))). 0 \<le> estimatedCost v \<and> estimatedCost v \<le> 1"
    using c(4) ih(2) by auto
  have 3: "(\<forall>pg\<in>set (pg # pgs). length (variants pg) = 1) \<longrightarrow>
           sum_list (map totalCost (pg # pgs)) = of_nat (length (concat (map variants (pg # pgs))))"
  proof
    assume a: "\<forall>pg\<in>set (pg # pgs). length (variants pg) = 1"
    then have "length (variants pg) = 1" by simp
    then obtain v where v: "variants pg = [v]" by (cases "variants pg") auto
    with c(2,3) have "totalCost pg = 1" by simp
    moreover have "sum_list (map totalCost pgs) = of_nat (length (concat (map variants pgs)))"
      using a ih(3) by simp
    ultimately show "sum_list (map totalCost (pg # pgs))
        = of_nat (length (concat (map variants (pg # pgs))))"
      using v by simp
  qed
  from 1 2 3 show ?case by blast
qed

lemma length_planIds:
  "length (planIds (calculateOptimizationResult pgs)) = sum_list (map (\<lambda>g. length (variants g)) pgs)"
  by (simp add: planIds_def length_concat comp_def)

lemma length_all_variants:
  "length (concat (map variants pgs)) = sum_list (map (\<lambda>g. length (variants g)) pgs)"
  by (simp add: length_concat comp_def)

lemma estimatedSavings_result:
  "estimatedSavings (calculateOptimizationResult pgs) =
     js_scale (js_div (of_nat (length (concat (map variants pgs))) - sum_list (map totalCost pgs))
                      (of_nat (length (concat (map variants pgs))))) 100"
  by (simp add: calculateOptimizationResult_def Let_def length_all_variants)


text \<open>
  C5, as the code has it. Whenever some occurrence has a description (so that at least
  one group is built; the orchestrator skips the analyzer when nothing was extracted),
  the savings are the finite number
  \<open>(unoptimizedCost - optimizedCost) / unoptimizedCost * 100\<close>, with one unit per plan
  as the unoptimized cost and the sum of the plans' costs as the optimized one; the
  number lies between 0 and 100, and it is 0 when every group has exactly one plan.
\<close>

theorem savings_formula_and_range:
  assumes "img \<in> set images" and "descs (path img) \<noteq> None"
  shows "\<exists>r s. createProcessingPlan images descs = Inr r \<and> estimatedSavings r = Fin s
           \<and> 0 < unoptimizedCost r
           \<and> s = (unoptimizedCost r - optimizedCost r) / unoptimizedCost r * 100
           \<and> 0 \<le> s \<and> s \<le> 100
           \<and> ((\<forall>g\<in>set (groups r). length (variants g) = 1) \<longrightarrow> s = 0)"
proof -
  from createProcessingPlan_groups[of images descs] obtain pgs where pgs:
    "createProcessingPlan images descs = Inr (calculateOptimizationResult pgs)"
    "list_all2 (\<lambda>g pg. optimizeGroup g descs = Inr pg) (groupBySimilarity images descs) pgs"
    by blast
  define r where "r = calculateOptimizationResult pgs"
  define n :: rat where "n = of_nat (length (concat (map variants pgs)))"
  define c where "c = sum_list (map totalCost pgs)"
  have ok: "\<forall>g\<in>set (groupBySimilarity images descs). g \<noteq> [] \<and> (\<forall>x\<in>set g. descs (path x) \<noteq> None)"
    using groupBySimilarity_props(4,5)[of _ images descs] by blast
  note rc = result_costs[OF pgs(2) ok]
  have u: "unoptimizedCost r = n"
    by (simp add: unoptimizedCost_def r_def n_def length_planIds length_all_variants)
  have o: "optimizedCost r = c"
    using rc by (simp add: optimizedCost_def r_def c_def)
  from createProcessingPlan_id_set[of images descs] pgs(1) have
    "set (planIds r) = {p \<in> path ` set images. descs p \<noteq> None}"
    by (simp add: r_def)
  with assms have "path img \<in> set (planIds r)" by blast
  then have "0 < length (planIds r)" by (cases "planIds r") auto
  then have "(0::rat) < of_nat (length (planIds r))" by simp
  then have "0 < unoptimizedCost r" unfolding unoptimizedCost_def .
  then have npos: "0 < n" unfolding u .
  have cb: "0 \<le> c" "c \<le> n"
    using sum_list_bounds[of "concat (map variants pgs)" estimatedCost] rc
    by (simp_all add: c_def n_def)
  define s where "s = (n - c) / n * 100"
  have e: "estimatedSavings r = Fin s"
    using npos by (simp add: r_def estimatedSavings_result js_div_def n_def c_def s_def)
  have q0: "0 \<le> (n - c) / n" using cb npos by simp
  have s0: "0 \<le> s" unfolding s_def using q0 by (rule mult_nonneg_nonneg) simp
  have q1: "(n - c) / n \<le> 1" using cb npos by simp
  have "(n - c) / n * 100 \<le> 1 * 100" using q1 by (rule mult_right_mono) simp
  then have s1: "s \<le> 100" unfolding s_def by simp
  have z: "(\<forall>g\<in>set (groups r). length (variants g) = 1) \<longrightarrow> s = 0"
  proof
    assume "\<forall>g\<in>set (groups r). length (variants g) = 1"
    then have "\<forall>pg\<in>set pgs. length (variants pg) = 1" by (simp add: r_def)
    with rc have "c = n" by (simp add: c_def n_def)
    then show "s = 0" by (simp add: s_def)
  qed
  have f: "s = (unoptimizedCost r - optimizedCost r) / unoptimizedCost r * 100"
    by (simp add: u o s_def)
  have p: "0 < unoptimizedCost r" using npos u by simp
  from pgs(1) e p f s0 s1 z show ?thesis unfolding r_def by blast
qed

theorem savings_formula_and_range_witness:
  "createProcessingPlan [exBig] exDescs = Inr (calculateOptimizationResult [exSingle])
   \<and> estimatedSavings (calculateOptimizationResult [exSingle]) = Fin 0"
proof -
  have h: "exBig \<in> set [exBig]" "exDescs (path exBig) \<noteq> None"
    by (simp_all add: exBig_def exDescs_def)
  from savings_formula_and_range[of exBig "[exBig]" exDescs, OF h] obtain r s where rs:
    "createProcessingPlan [exBig] exDescs = Inr r" "estimatedSavings r = Fin s"
    "(\<forall>g\<in>set (groups r). length (variants g) = 1) \<longrightarrow> s = 0" by blast
  from rs(1) have r: "r = calculateOptimizationResult [exSingle]"
    by (simp add: ex_single_plan)
  have "\<forall>g\<in>set (groups r). length (variants g) = 1"
    by (simp add: r exSingle_def)
  with rs(3) have "s = 0" by blast
  with rs(2) r show ?thesis by (simp add: ex_single_plan)
qed

text \<open>
  C5 as stated fails on the run with no occurrence: no group is built (so every group has
  one occurrence), and the savings are \<open>NaN\<close>, neither 0 nor a number of \<open>[0, 100]\<close>.
\<close>

theorem savings_range_counterexample:
  "createProcessingPlan [] Map.empty = Inr (calculateOptimizationResult [])
   \<and> groups (calculateOptimizationResult []) = []
   \<and> estimatedSavings (calculateOptimizationResult []) = NaN"
  by (simp add: createProcessingPlan_Nil calculateOptimizationResult_Nil)


section \<open>Properties of the description generator and of the pipeline\<close>

subsection \<open>Every occurrence gets a description\<close>

lemma dom_describeAll:
  "dom (describeAll opts rnd xs k descs) = dom descs \<union> path ` set xs"
  by (induction xs arbitrary: k descs) auto

lemma set_addToGroup:
  "set (concat (map snd (addToGroup gs key img))) = insert img (set (concat (map snd gs)))"
  by (induction gs key img rule: addToGroup.induct) auto

lemma set_groupByContext_foldl:
  "set (concat (map snd (foldl (\<lambda>gs img. addToGroup gs (generateContextKey img) img) gs0 images)))
     = set (concat (map snd gs0)) \<union> set images"
proof (induction images arbitrary: gs0)
  case Nil
  show ?case by simp
next
  case (Cons x xs)
  show ?case
    unfolding foldl_Cons Cons.IH set_addToGroup by auto
qed

lemma set_groupByContext: "set (concat (map snd (groupByContext images))) = set images"
  unfolding groupByContext_def set_groupByContext_foldl by simp

lemma dom_generateDescriptions:
  "dom (generateDescriptions images options rnd) = path ` set images"
  unfolding generateDescriptions_def dom_describeAll set_groupByContext by simp

text \<open>
  C9. A path without a description is in no plan of the result (the analyzer still
  returns a result): its occurrence is dropped. \<open>generateDescriptions\<close> stores a
  description under the path of every occurrence it is given, so after it every
  occurrence path has one.
\<close>

theorem undescribed_occurrence_dropped:
  "(descs p = None \<longrightarrow>
      (\<exists>r. createProcessingPlan images descs = Inr r \<and> p \<notin> set (planIds r)))
   \<and> dom (generateDescriptions images options rnd) = path ` set images"
proof -
  from createProcessingPlan_id_set[of images descs] obtain r where
    "createProcessingPlan images descs = Inr r"
    "set (planIds r) = {p \<in> path ` set images. descs p \<noteq> None}" by blast
  then have "descs p = None \<longrightarrow>
      (\<exists>r. createProcessingPlan images descs = Inr r \<and> p \<notin> set (planIds r))"
    by auto
  then show ?thesis by (simp add: dom_generateDescriptions)
qed

theorem undescribed_occurrence_dropped_witness:
  "(\<exists>r. createProcessingPlan [exBig, exSmall] [''big'' \<mapsto> exDescription] = Inr r
        \<and> ''small'' \<notin> set (planIds r))
   \<and> dom (generateDescriptions [exBig, exSmall] defaultOptions firstChoice) = {''big'', ''small''}"
proof -
  have n: "[''big'' \<mapsto> exDescription] ''small'' = None" by simp
  have p: "path ` set [exBig, exSmall] = {''big'', ''small''}"
    by (simp add: exBig_def exSmall_def)
  from undescribed_occurrence_dropped
         [of "[''big'' \<mapsto> exDescription]" "''small''" "[exBig, exSmall]" defaultOptions firstChoice]
  show ?thesis unfolding p using n by blast
qed

subsection \<open>The document with the two fields, through the pipeline\<close>

lemma tb_extract: "extractedImages thumbBannerDoc = [tbThumb, tbBanner]"
  by code_simp

lemma tb_thumb_description:
  "generateDescription tbThumb (normalizeOptions defaultOptions) r = tbThumbDescription"
  by code_simp

lemma tb_banner_description:
  "generateDescription tbBanner (normalizeOptions defaultOptions) r = tbBannerDescription"
  by code_simp

lemma tb_order: "concat (map snd (groupByContext [tbThumb, tbBanner])) = [tbThumb, tbBanner]"
  by code_simp

lemma tb_descriptions:
  "generateDescriptions [tbThumb, tbBanner] defaultOptions firstChoice
     = [''thumb'' \<mapsto> tbThumbDescription, ''banner'' \<mapsto> tbBannerDescription]"
proof -
  have p: "path tbThumb = ''thumb''" "path tbBanner = ''banner''"
    by (simp_all add: tbThumb_def tbBanner_def)
  show ?thesis
    unfolding generateDescriptions_def tb_order
    by (simp add: tb_thumb_description tb_banner_description p)
qed

lemma tb_groups:
  "groupBySimilarity [tbThumb, tbBanner]
      [''thumb'' \<mapsto> tbThumbDescription, ''banner'' \<mapsto> tbBannerDescription]
     = [[tbThumb], [tbBanner]]"
proof -
  have s: "calculateDescriptionSimilarity tbThumbDescription tbBannerDescription = 19 / 45"
    by code_simp
  have c: "calculateContextSimilarity tbThumb tbBanner = 0"
    by code_simp
  have p: "path tbThumb = ''thumb''" "path tbBanner = ''banner''"
    by (simp_all add: tbThumb_def tbBanner_def)
  show ?thesis
    by (simp add: groupBySimilarity_def p s c SIMILARITY_THRESHOLD_def)
qed

lemma tb_same_groups: "groupBySimilarity [tbThumb, tbBanner] tbSameDescs = [[tbThumb, tbBanner]]"
proof -
  have s: "calculateDescriptionSimilarity tbThumbDescription tbThumbDescription = 1"
    by code_simp
  have p: "path tbThumb = ''thumb''" "path tbBanner = ''banner''"
    by (simp_all add: tbThumb_def tbBanner_def)
  show ?thesis
    by (simp add: groupBySimilarity_def p s tbSameDescs_def SIMILARITY_THRESHOLD_def)
qed

lemma tb_same_variant:
  "createVariantPlan tbBanner tbThumb tbSameDescs =
     Inr \<lparr>imageId = ''banner'', processingType = Reuse, sourceImageId = Some ''thumb'',
          targetDimensions = \<lparr>width = 200, height = 200\<rparr>, planCropRegion = None,
          description = Some tbThumbDescription,
          priority = calculatePriority tbBanner tbThumbDescription,
          estimatedCost = 1 / 10\<rparr>"
proof -
  have d: "dimensions tbBanner = \<lparr>width = 200, height = 200\<rparr>"
    "dimensions tbThumb = \<lparr>width = 200, height = 200\<rparr>"
    "path tbBanner = ''banner''" "path tbThumb = ''thumb''"
    by (simp_all add: tbBanner_def tbThumb_def)
  have e: "tbSameDescs ''banner'' = Some tbThumbDescription" by (simp add: tbSameDescs_def)
  show ?thesis
    unfolding createVariantPlan_def d Let_def e by simp
qed

lemma tb_same_optimize: "optimizeGroup [tbThumb, tbBanner] tbSameDescs = Inr tbGroup"
proof -
  have p: "path tbBanner \<noteq> path tbThumb" by (simp add: tbBanner_def tbThumb_def)
  have b: "path tbThumb = ''thumb''" "dimensions tbThumb = \<lparr>width = 200, height = 200\<rparr>"
    "tbSameDescs ''thumb'' = Some tbThumbDescription"
    by (simp_all add: tbThumb_def tbSameDescs_def)
  have ms: "selectMasterImage [tbThumb, tbBanner] tbSameDescs = Inr tbThumb"
    by (simp add: masterScore_def tbSameDescs_def tbThumb_def tbBanner_def)
  have v: "variantPlans [tbThumb, tbBanner] tbThumb tbSameDescs =
     Inr [\<lparr>imageId = ''banner'', processingType = Reuse, sourceImageId = Some ''thumb'',
          targetDimensions = \<lparr>width = 200, height = 200\<rparr>, planCropRegion = None,
          description = Some tbThumbDescription,
          priority = calculatePriority tbBanner tbThumbDescription,
          estimatedCost = 1 / 10\<rparr>]"
    using p by (simp add: tb_same_variant)
  have m: "masterPlan tbThumb tbSameDescs =
      \<lparr>imageId = ''thumb'', processingType = Generate, sourceImageId = None,
          targetDimensions = \<lparr>width = 200, height = 200\<rparr>, planCropRegion = None,
          description = Some tbThumbDescription, priority = 1, estimatedCost = 1\<rparr>"
    by (simp add: masterPlan_def b)
  show ?thesis
    unfolding optimizeGroup_def
    by (simp add: ms v m b tbGroup_def del: selectMasterImage.simps variantPlans.simps)
qed

lemma tb_same_plan:
  "createProcessingPlan [tbThumb, tbBanner] tbSameDescs
     = Inr (calculateOptimizationResult [tbGroup])"
  by (simp add: createProcessingPlan_def tb_same_groups tb_same_optimize)

text \<open>
  C4, as the code has it. In every group the analyzer builds, a plan after the master's
  whose target dimensions are the master's is a reuse of the master with cost 0.1.
\<close>

theorem same_dimensions_reuse:
  assumes "createProcessingPlan images descs = Inr r" and "g \<in> set (groups r)"
    and "p \<in> set (tl (variants g))" and "targetDimensions p = groupTargetDimensions g"
  shows "processingType p = Reuse \<and> estimatedCost p = 1 / 10
           \<and> sourceImageId p = Some (masterImageId g)"
proof -
  from createProcessingPlan_groups[of images descs] obtain pgs where pgs:
    "createProcessingPlan images descs = Inr (calculateOptimizationResult pgs)"
    "list_all2 (\<lambda>g pg. optimizeGroup g descs = Inr pg) (groupBySimilarity images descs) pgs"
    by blast
  from pgs(1) assms(1) have "r = calculateOptimizationResult pgs" by simp
  with assms(2) have "g \<in> set pgs" by simp
  from list_all2_right_mem[OF pgs(2) this] obtain grp where
    grp: "grp \<in> set (groupBySimilarity images descs)" "optimizeGroup grp descs = Inr g"
    by blast
  have ne: "grp \<noteq> []" "\<forall>x\<in>set grp. descs (path x) \<noteq> None"
    using groupBySimilarity_props(4,5)[OF grp(1)] by blast+
  from optimizeGroup_ok[OF ne] obtain m plans pg where m:
    "optimizeGroup grp descs = Inr pg"
    "masterImageId pg = path m" "groupTargetDimensions pg = dimensions m"
    "variants pg = masterPlan m descs # plans"
    "\<forall>p\<in>set plans. variantOf (path m) p
        \<and> (targetDimensions p = dimensions m \<longrightarrow> processingType p = Reuse)"
    by blast
  from m(1) grp(2) have pg: "pg = g" by simp
  from assms(3) m(4) pg have "p \<in> set plans" by simp
  with m(5) have v: "variantOf (path m) p"
    and r: "targetDimensions p = dimensions m \<longrightarrow> processingType p = Reuse" by blast+
  from assms(4) m(3) pg r have t: "processingType p = Reuse" by simp
  with v m(2) pg show ?thesis by (simp add: variantOf_def planCost_def)
qed

theorem same_dimensions_reuse_witness:
  "createProcessingPlan (extractedImages thumbBannerDoc) tbSameDescs
     = Inr (calculateOptimizationResult [tbGroup])
   \<and> imageId (variants tbGroup ! 1) = ''banner''
   \<and> processingType (variants tbGroup ! 1) = Reuse
   \<and> estimatedCost (variants tbGroup ! 1) = 1 / 10
   \<and> sourceImageId (variants tbGroup ! 1) = Some ''thumb''"
proof -
  have g: "tbGroup \<in> set (groups (calculateOptimizationResult [tbGroup]))" by simp
  have p: "variants tbGroup ! 1 \<in> set (tl (variants tbGroup))" by (simp add: tbGroup_def)
  have d: "targetDimensions (variants tbGroup ! 1) = groupTargetDimensions tbGroup"
    by (simp add: tbGroup_def)
  have i: "imageId (variants tbGroup ! 1) = ''banner''" "masterImageId tbGroup = ''thumb''"
    by (simp_all add: tbGroup_def)
  from same_dimensions_reuse[OF tb_same_plan g p d] i tb_same_plan
  show ?thesis by (simp add: tb_extract)
qed

text \<open>
  C4 as stated fails: with the descriptions \<open>generateDescriptions\<close> produces under the
  default options, the two occurrences of the document have the categories \<open>generic\<close>
  and \<open>banner\<close>, a description similarity of 19/45 and no key field in common, and the
  analyzer puts them into two groups of one generation each.
\<close>

theorem thumb_banner_counterexample:
  "(case createProcessingPlan (extractedImages thumbBannerDoc)
           (generateDescriptions (extractedImages thumbBannerDoc) defaultOptions firstChoice) of
      Inl e \<Rightarrow> []
    | Inr r \<Rightarrow> map (\<lambda>g. map (\<lambda>v. (imageId v, processingType v, estimatedCost v)) (variants g))
                (groups r))
   = [[(''thumb'', Generate, 1)], [(''banner'', Generate, 1)]]"
proof -
  have p: "path tbThumb = ''thumb''" "path tbBanner = ''banner''"
    by (simp_all add: tbThumb_def tbBanner_def)
  have o: "optimizeAll [[tbThumb], [tbBanner]]
             [''thumb'' \<mapsto> tbThumbDescription, ''banner'' \<mapsto> tbBannerDescription]
      = Inr [\<lparr>masterImageId = ''thumb'', groupDescription = Some tbThumbDescription,
              groupTargetDimensions = dimensions tbThumb,
              variants = [\<lparr>imageId = ''thumb'', processingType = Generate,
                           sourceImageId = None, targetDimensions = dimensions tbThumb,
                           planCropRegion = None, description = Some tbThumbDescription,
                           priority = 1, estimatedCost = 1\<rparr>],
              totalCost = 1\<rparr>,
             \<lparr>masterImageId = ''banner'', groupDescription = Some tbBannerDescription,
              groupTargetDimensions = dimensions tbBanner,
              variants = [\<lparr>imageId = ''banner'', processingType = Generate,
                           sourceImageId = None, targetDimensions = dimensions tbBanner,
                           planCropRegion = None, description = Some tbBannerDescription,
                           priority = 1, estimatedCost = 1\<rparr>],
              totalCost = 1\<rparr>]"
    by (simp add: optimizeGroup_def masterPlan_def p)
  show ?thesis
    unfolding tb_extract tb_descriptions createProcessingPlan_def tb_groups o
    by simp
qed


subsection \<open>The length of the enhanced prompt\<close>

text \<open>With a cap of at least 3 the truncation of \<open>enhancePrompt\<close> keeps the prompt within
  the cap, and a truncated prompt ends with the ellipsis.\<close>

lemma enhancePrompt_within_cap:
  assumes "maxPromptLength options = Some m" and "3 \<le> m"
  shows "int (length (enhancePrompt b ctx options rnd)) \<le> m"
  using assms by (simp add: enhancePrompt_def Let_def)

lemma generateDescription_within_cap:
  assumes "maxPromptLength (normalizeOptions options) = Some m" and "3 \<le> m"
  shows "int (length (enhancedPrompt (generateDescription img options rnd))) \<le> m"
  using enhancePrompt_within_cap[OF assms] by (simp add: generateDescription_def Let_def)

lemma generateDescription_default_cap:
  assumes "maxPromptLength options = None"
  shows "length (enhancedPrompt (generateDescription img options rnd)) \<le> 200"
proof -
  have "maxPromptLength (normalizeOptions options) = Some 200"
    using assms by (simp add: normalizeOptions_def)
  from generateDescription_within_cap[OF this, of img rnd] show ?thesis by simp
qed

text \<open>Every prompt has at least three characters, so a cap of 1 or 2 (or a negative
  one) always truncates, and what is left is the ellipsis alone.\<close>

lemma fieldType_length:
  "3 \<le> length (case map_of FIELD_TYPE_MAPPING cat of
                   Some t \<Rightarrow> t | None \<Rightarrow> ''professional photography'')"
proof (cases "map_of FIELD_TYPE_MAPPING cat")
  case None
  then show ?thesis by simp
next
  case (Some t)
  then have "(cat, t) \<in> set FIELD_TYPE_MAPPING" by (rule map_of_SomeD)
  moreover have "\<forall>e\<in>set FIELD_TYPE_MAPPING. 3 \<le> length (snd e)"
    by (simp add: FIELD_TYPE_MAPPING_def)
  ultimately have "3 \<le> length (snd (cat, t))" by blast
  then show ?thesis using Some by simp
qed

lemma generateBasePrompt_length: "3 \<le> length (generateBasePrompt img ctx cat)"
  using fieldType_length[of cat] by (simp add: generateBasePrompt_def Let_def)

lemma enhancePrompt_small_cap:
  assumes "maxPromptLength options = Some m" and "m \<noteq> 0" and "m < 3" and "3 \<le> length b"
  shows "enhancePrompt b ctx options rnd = ''...''"
  using assms by (simp add: enhancePrompt_def Let_def)

lemma generateDescription_small_cap:
  assumes "maxPromptLength options = Some m" and "m \<noteq> 0" and "m < 3"
  shows "enhancedPrompt (generateDescription img options rnd) = ''...''"
proof -
  have "maxPromptLength (normalizeOptions options) = Some m"
    using assms(1,2) by (simp add: normalizeOptions_def)
  from enhancePrompt_small_cap[OF this assms(2,3) generateBasePrompt_length]
  show ?thesis by (simp add: generateDescription_def Let_def)
qed

text \<open>
  C8 at the cap 2: for the occurrence \<open>thumb\<close> of the two-field document and the options
  \<open>{maxPromptLength: 2}\<close> the enhanced prompt is the ellipsis, of length 3.
\<close>

theorem prompt_longer_than_cap:
  "enhancedPrompt (generateDescription tbThumb (defaultOptions\<lparr>maxPromptLength := Some 2\<rparr>) 0)
     = ''...''
   \<and> length (enhancedPrompt
        (generateDescription tbThumb (defaultOptions\<lparr>maxPromptLength := Some 2\<rparr>) 0)) = 3"
  by code_simp


section \<open>Properties of the replacer\<close>

subsection \<open>What the two traversals count\<close>












subsection \<open>A URL without a mapping\<close>

lemma replaceUrl_unresolved:
  assumes "u \<noteq> []"
    and "\<not> truthyString (directMapping u um)" and "\<not> truthyString (findVariantMapping u um)"
  shows "replaceUrl key u p um cm result opts idx =
     (if preserveOriginal opts then
        (None,
         result\<lparr>errors := errors result @ [''No replacement found for URL: '' @ u @ '' at '' @ p],
                failedCount := failedCount result + 1\<rparr>)
      else
        (Some (if preferCdn opts \<and> (case cm of None \<Rightarrow> None | Some m \<Rightarrow> map_of m u) \<noteq> None
               then the (case cm of None \<Rightarrow> None | Some m \<Rightarrow> map_of m u) else u),
         result\<lparr>mappings := mappings result @
                   [\<lparr>originalUrl = u,
                     newUrl = (if preferCdn opts
                                  \<and> (case cm of None \<Rightarrow> None | Some m \<Rightarrow> map_of m u) \<noteq> None
                               then the (case cm of None \<Rightarrow> None | Some m \<Rightarrow> map_of m u) else u),
                     cdnUrl = (case cm of None \<Rightarrow> None | Some m \<Rightarrow> map_of m u),
                     mappingPath = p, mappingFieldName = key,
                     mappingItemIndex = idx, replacementType = Fallback\<rparr>],
                replacedCount := replacedCount result + 1\<rparr>))"
proof (cases "preserveOriginal opts")
  case True
  with assms(2,3) show ?thesis
    by (cases "findVariantMapping u um") (simp_all add: replaceUrl_def Let_def)
next
  case False
  with assms show ?thesis
    by (simp add: replaceUrl_def Let_def generateFallbackUrl_def)
qed

lemma replacerIsPicsumUrl_nonempty: "replacerIsPicsumUrl u \<Longrightarrow> u \<noteq> []"
  by (auto simp: replacerIsPicsumUrl_def picsumHost_def)

text \<open>
  C7, as the code has it. A field holding a placeholder URL with neither a direct nor a
  variant mapping: when \<open>preserveOriginalOnFailure\<close> is set, the field keeps its value,
  \<open>failedCount\<close> grows by one, the error message is appended and no mapping is recorded;
  otherwise \<open>replacedCount\<close> grows by one, a mapping of type \<open>fallback\<close> is recorded, and
  the field is assigned the original URL, or the CDN URL of the original URL when
  \<open>preferCdnUrls\<close> is set and the CDN table has an entry for it.
\<close>

theorem unresolved_url_handling:
  assumes "replacerIsPicsumUrl u"
    and "\<not> truthyString (directMapping u (envUrlMappings env))"
    and "\<not> truthyString (findVariantMapping u (envUrlMappings env))"
  shows "replaceEntries env [(key, JStr u)] currentPath result idx =
     (if preserveOriginal (envOptions env) then
        ([(key, JStr u)],
         result\<lparr>errors := errors result @
                   [''No replacement found for URL: '' @ u @ '' at '' @ keyPath currentPath key],
                failedCount := failedCount result + 1\<rparr>)
      else
        ([(key, JStr (if preferCdn (envOptions env)
                         \<and> (case envCdnMappings env of None \<Rightarrow> None | Some m \<Rightarrow> map_of m u) \<noteq> None
                      then the (case envCdnMappings env of None \<Rightarrow> None | Some m \<Rightarrow> map_of m u)
                      else u))],
         result\<lparr>mappings := mappings result @
                   [\<lparr>originalUrl = u,
                     newUrl = (if preferCdn (envOptions env)
                                  \<and> (case envCdnMappings env of
                                        None \<Rightarrow> None | Some m \<Rightarrow> map_of m u) \<noteq> None
                               then the (case envCdnMappings env of
                                           None \<Rightarrow> None | Some m \<Rightarrow> map_of m u)
                               else u),
                     cdnUrl = (case envCdnMappings env of None \<Rightarrow> None | Some m \<Rightarrow> map_of m u),
                     mappingPath = keyPath currentPath key, mappingFieldName = key,
                     mappingItemIndex = idx, replacementType = Fallback\<rparr>],
                replacedCount := replacedCount result + 1\<rparr>))"
proof -
  note r = replaceUrl_unresolved[OF replacerIsPicsumUrl_nonempty[OF assms(1)] assms(2,3),
             of key "keyPath currentPath key" "envCdnMappings env" result "envOptions env" idx]
  show ?thesis
  proof (cases "preserveOriginal (envOptions env)")
    case True
    with r assms(1) show ?thesis by simp
  next
    case False
    with r assms(1) show ?thesis by simp
  qed
qed

theorem unresolved_url_handling_witness:
  "replaceEntries
     \<lparr>envUrlMappings = [], envCdnMappings = None,
      envOptions = normalizeReplacementOptions defaultReplacementOptions\<rparr>
     [(''img'', JStr ''https://picsum.photos/800/600'')] []
     \<lparr>success = False, replacedCount = 0, failedCount = 0, mappings = [],
      modifiedData = imgDoc, errors = []\<rparr> 0
   = ([(''img'', JStr ''https://picsum.photos/800/600'')],
      \<lparr>success = False, replacedCount = 1, failedCount = 0,
       mappings = [\<lparr>originalUrl = ''https://picsum.photos/800/600'',
                    newUrl = ''https://picsum.photos/800/600'', cdnUrl = None,
                    mappingPath = ''img'', mappingFieldName = ''img'',
                    mappingItemIndex = 0, replacementType = Fallback\<rparr>],
       modifiedData = imgDoc, errors = []\<rparr>)
   \<and> replaceEntries
     \<lparr>envUrlMappings = [], envCdnMappings = None,
      envOptions = normalizeReplacementOptions
                     (defaultReplacementOptions\<lparr>preserveOriginalOnFailure := Some True\<rparr>)\<rparr>
     [(''img'', JStr ''https://picsum.photos/800/600'')] []
     \<lparr>success = False, replacedCount = 0, failedCount = 0, mappings = [],
      modifiedData = imgDoc, errors = []\<rparr> 0
   = ([(''img'', JStr ''https://picsum.photos/800/600'')],
      \<lparr>success = False, replacedCount = 0, failedCount = 1, mappings = [],
       modifiedData = imgDoc,
       errors = [''No replacement found for URL: https://picsum.photos/800/600 at img'']\<rparr>)"
proof -
  define r0 :: "json ReplacementResult" where
    "r0 = \<lparr>success = False, replacedCount = 0, failedCount = 0, mappings = [],
            modifiedData = imgDoc, errors = []\<rparr>"
  define env1 where "env1 = \<lparr>envUrlMappings = [], envCdnMappings = None,
      envOptions = normalizeReplacementOptions defaultReplacementOptions\<rparr>"
  define env2 where "env2 = \<lparr>envUrlMappings = [], envCdnMappings = None,
      envOptions = normalizeReplacementOptions
                     (defaultReplacementOptions\<lparr>preserveOriginalOnFailure := Some True\<rparr>)\<rparr>"
  have a: "replacerIsPicsumUrl ''https://picsum.photos/800/600''" by code_simp
  have b: "\<not> truthyString (directMapping ''https://picsum.photos/800/600'' (envUrlMappings env1))"
    "\<not> truthyString (directMapping ''https://picsum.photos/800/600'' (envUrlMappings env2))"
    by (simp_all add: directMapping_def env1_def env2_def)
  have c: "\<not> truthyString (findVariantMapping ''https://picsum.photos/800/600'' (envUrlMappings env1))"
    "\<not> truthyString (findVariantMapping ''https://picsum.photos/800/600'' (envUrlMappings env2))"
    by (simp_all add: findVariantMapping_def env1_def env2_def)
  have k: "keyPath [] ''img'' = ''img''" by (simp add: keyPath_def)
  have o: "preserveOriginal (envOptions env1) = False" "preferCdn (envOptions env1) = True"
    "envCdnMappings env1 = None" "preserveOriginal (envOptions env2) = True"
    by (simp_all add: env1_def env2_def normalizeReplacementOptions_def
          defaultReplacementOptions_def)
  have 1: "replaceEntries env1 [(''img'', JStr ''https://picsum.photos/800/600'')] [] r0 0
   = ([(''img'', JStr ''https://picsum.photos/800/600'')],
      \<lparr>success = False, replacedCount = 1, failedCount = 0,
       mappings = [\<lparr>originalUrl = ''https://picsum.photos/800/600'',
                    newUrl = ''https://picsum.photos/800/600'', cdnUrl = None,
                    mappingPath = ''img'', mappingFieldName = ''img'',
                    mappingItemIndex = 0, replacementType = Fallback\<rparr>],
       modifiedData = imgDoc, errors = []\<rparr>)"
    unfolding unresolved_url_handling[OF a b(1) c(1)] o k by (simp add: r0_def)
  have 2: "replaceEntries env2 [(''img'', JStr ''https://picsum.photos/800/600'')] [] r0 0
   = ([(''img'', JStr ''https://picsum.photos/800/600'')],
      \<lparr>success = False, replacedCount = 0, failedCount = 1, mappings = [],
       modifiedData = imgDoc,
       errors = [''No replacement found for URL: https://picsum.photos/800/600 at img'']\<rparr>)"
    unfolding unresolved_url_handling[OF a b(2) c(2)] o k by (simp add: r0_def)
  from 1 2 show ?thesis unfolding env1_def env2_def r0_def by blast
qed

text \<open>
  C7 as stated fails when the CDN table has an entry for a URL that the mapping table
  does not resolve: under the default options the field then receives the CDN URL, not
  the original one, recorded as a \<open>fallback\<close>.
\<close>

theorem unresolved_url_counterexample:
  "directMapping ''https://picsum.photos/800/600'' [] = None
   \<and> findVariantMapping ''https://picsum.photos/800/600'' [] = None
   \<and> modifiedData (replaceUrls imgDoc [] (Some cdnOnly) defaultReplacementOptions noValidation)
       = JObj [(''img'', JStr ''https://cdn.example/x.png'')]
   \<and> map (\<lambda>m. (originalUrl m, newUrl m, replacementType m))
         (mappings (replaceUrls imgDoc [] (Some cdnOnly) defaultReplacementOptions noValidation))
       = [(''https://picsum.photos/800/600'', ''https://cdn.example/x.png'', Fallback)]
   \<and> replacedCount (replaceUrls imgDoc [] (Some cdnOnly) defaultReplacementOptions noValidation)
       = 1"
  by code_simp


section \<open>The original document is not written to\<close>

subsection \<open>Stores that grow\<close>

lemma grows_refl: "wfStore s \<Longrightarrow> grows s s"
  unfolding grows_def wfStore_def by (auto dest: leD)

lemma grows_trans:
  assumes "grows s s1" "grows s1 s2"
  shows "grows s s2"
proof -
  have w: "wfStore s2" and le: "fresh s \<le> fresh s1" "fresh s1 \<le> fresh s2"
    using assms by (simp_all add: grows_def)
  have a1: "\<And>a. a < fresh s \<Longrightarrow> cells s1 a = cells s a"
    and a2: "\<And>a. a < fresh s1 \<Longrightarrow> cells s2 a = cells s1 a"
    using assms by (simp_all add: grows_def)
  have c1: "\<And>a c b. cells s1 a = Some c \<Longrightarrow> fresh s \<le> a \<Longrightarrow> b \<in> cellRefs c \<Longrightarrow> fresh s \<le> b"
    and c2: "\<And>a c b. cells s2 a = Some c \<Longrightarrow> fresh s1 \<le> a \<Longrightarrow> b \<in> cellRefs c \<Longrightarrow> fresh s1 \<le> b"
    using assms unfolding grows_def by blast+
  have "\<And>a. a < fresh s \<Longrightarrow> cells s2 a = cells s a"
    using a1 a2 le by simp
  moreover have "\<And>a c b. cells s2 a = Some c \<Longrightarrow> fresh s \<le> a \<Longrightarrow> b \<in> cellRefs c \<Longrightarrow> fresh s \<le> b"
  proof -
    fix a c b assume h: "cells s2 a = Some c" "fresh s \<le> a" "b \<in> cellRefs c"
    show "fresh s \<le> b"
    proof (cases "a < fresh s1")
      case True
      then have "cells s1 a = Some c" using a2 h(1) by simp
      then show ?thesis using c1 h by blast
    next
      case False
      then have "fresh s1 \<le> b" using c2 h by (meson not_le)
      then show ?thesis using le by simp
    qed
  qed
  ultimately show ?thesis unfolding grows_def using w le by (meson le_trans)
qed

lemma grows_valid:
  assumes "wfStore s" "grows s s'" "validVal s v"
  shows "validVal s' v"
  using assms unfolding grows_def wfStore_def validVal_def
  by (metis not_Some_eq)

lemma grows_alloc:
  assumes g: "grows s s'" and r: "\<forall>b\<in>cellRefs c. fresh s \<le> b \<and> cells s' b \<noteq> None"
  shows "grows s (snd (alloc s' c))"
proof -
  let ?t = "snd (alloc s' c)"
  have w: "wfStore s'" and le: "fresh s \<le> fresh s'" using g by (simp_all add: grows_def)
  have fr: "fresh ?t = Suc (fresh s')" by (simp add: alloc_def)
  have cl: "\<And>a. cells ?t a = (if a = fresh s' then Some c else cells s' a)"
    by (simp add: alloc_def)
  have lt: "\<And>b. cells s' b \<noteq> None \<Longrightarrow> b < fresh s'"
    using w unfolding wfStore_def by blast
  have "wfStore ?t"
    unfolding wfStore_def
  proof (intro allI impI)
    fix a d assume h: "cells ?t a = Some d"
    show "a < fresh ?t \<and> (\<forall>b\<in>cellRefs d. b < a \<and> cells ?t b \<noteq> None)"
    proof (cases "a = fresh s'")
      case True
      then have "d = c" using h cl by simp
      then show ?thesis using True r lt fr cl by auto
    next
      case False
      then have "cells s' a = Some d" using h cl by simp
      then have "a < fresh s'" "\<forall>b\<in>cellRefs d. b < a \<and> cells s' b \<noteq> None"
        using w unfolding wfStore_def by blast+
      then show ?thesis using fr cl by auto
    qed
  qed
  moreover have "fresh s \<le> fresh ?t" using le fr by simp
  moreover have "\<forall>a<fresh s. cells ?t a = cells s a"
    using g le cl unfolding grows_def by auto
  moreover have "\<forall>a d. cells ?t a = Some d \<longrightarrow> fresh s \<le> a \<longrightarrow> (\<forall>b\<in>cellRefs d. fresh s \<le> b)"
  proof (intro allI impI)
    fix a d assume h: "cells ?t a = Some d" "fresh s \<le> a"
    show "\<forall>b\<in>cellRefs d. fresh s \<le> b"
    proof (cases "a = fresh s'")
      case True
      then have "d = c" using h cl by simp
      then show ?thesis using r by simp
    next
      case False
      then have "cells s' a = Some d" using h cl by simp
      then show ?thesis using g h(2) unfolding grows_def by blast
    qed
  qed
  ultimately show ?thesis unfolding grows_def by blast
qed

subsection \<open>The deep copy\<close>

text \<open>
  On a well-formed store \<open>deepClone\<close> returns once the fuel exceeds the references of
  its argument: the store it returns has the old cells unchanged, the copy is a new
  reference, and the new cells refer to new cells only.
\<close>

lemma valid_lt: "wfStore s \<Longrightarrow> validVal s v \<Longrightarrow> a \<in> valRefs v \<Longrightarrow> a < fresh s"
  unfolding wfStore_def validVal_def by blast

lemma alloc_fst: "fst (alloc s c) = VRef (fresh s)"
  by (simp add: alloc_def)

lemma alloc_cells: "cells (snd (alloc s c)) a = (if a = fresh s then Some c else cells s a)"
  by (simp add: alloc_def)

lemma deepClone_ok:
  "wfStore s \<longrightarrow> validVal s v \<longrightarrow> (\<forall>a\<in>valRefs v. a < n) \<longrightarrow>
     (\<exists>v' s'. deepClone n s v = Some (v', s') \<and> grows s s' \<and> validVal s' v' \<and>
        (\<forall>a\<in>valRefs v'. fresh s \<le> a) \<and> (valRefs v = {} \<longrightarrow> v' = v))"
  "wfStore s \<longrightarrow> (\<forall>v\<in>set vs. validVal s v \<and> (\<forall>a\<in>valRefs v. a < n)) \<longrightarrow>
     (\<exists>vs' s'. cloneItems n s vs = Some (vs', s') \<and> grows s s' \<and>
        (\<forall>v\<in>set vs'. validVal s' v \<and> (\<forall>a\<in>valRefs v. fresh s \<le> a)))"
  "wfStore s \<longrightarrow> (\<forall>kv\<in>set kvs. validVal s (snd kv) \<and> (\<forall>a\<in>valRefs (snd kv). a < n)) \<longrightarrow>
     (\<exists>kvs' s'. cloneEntries n s kvs = Some (kvs', s') \<and> grows s s' \<and>
        (\<forall>kv\<in>set kvs'. validVal s' (snd kv) \<and> (\<forall>a\<in>valRefs (snd kv). fresh s \<le> a)))"
proof (induction n s v and n s vs and n s kvs rule: deepClone_cloneItems_cloneEntries.induct)
  case (1 s a)
  then show ?case by simp
next
  case (2 n s a)
  show ?case
  proof (intro impI)
    assume w: "wfStore s" and v: "validVal s (VRef a)" and lt: "\<forall>b\<in>valRefs (VRef a). b < Suc n"
    from v obtain c where c: "cells s a = Some c" by (auto simp: validVal_def)
    have refs: "\<forall>b\<in>cellRefs c. b < a \<and> cells s b \<noteq> None"
      using w c unfolding wfStore_def by blast
    have an: "a \<le> n" using lt by simp
    show "\<exists>v' s'. deepClone (Suc n) s (VRef a) = Some (v', s') \<and> grows s s' \<and> validVal s' v' \<and>
        (\<forall>a\<in>valRefs v'. fresh s \<le> a) \<and> (valRefs (VRef a) = {} \<longrightarrow> v' = VRef a)"
    proof (cases c)
      case (DateCell t)
      have g: "grows s (snd (alloc s (DateCell t)))"
        by (rule grows_alloc[OF grows_refl[OF w]]) simp
      have "deepClone (Suc n) s (VRef a) = Some (VRef (fresh s), snd (alloc s (DateCell t)))"
        using c DateCell by (simp add: alloc_def)
      moreover have "validVal (snd (alloc s (DateCell t))) (VRef (fresh s))"
        by (simp add: validVal_def alloc_cells)
      ultimately show ?thesis using g by simp
    next
      case (ArrCell vs)
      have pre: "\<forall>v\<in>set vs. validVal s v \<and> (\<forall>a\<in>valRefs v. a < n)"
        using refs an ArrCell by (fastforce simp: validVal_def)
      from 2(2)[OF c ArrCell] w pre
      obtain vs' s' where r: "cloneItems n s vs = Some (vs', s')" "grows s s'"
        "\<forall>v\<in>set vs'. validVal s' v \<and> (\<forall>a\<in>valRefs v. fresh s \<le> a)" by blast
      have g: "grows s (snd (alloc s' (ArrCell vs')))"
        by (rule grows_alloc[OF r(2)]) (use r(3) in \<open>auto simp: validVal_def\<close>)
      have "deepClone (Suc n) s (VRef a) = Some (VRef (fresh s'), snd (alloc s' (ArrCell vs')))"
        using c ArrCell r(1) by (simp add: alloc_def)
      moreover have "validVal (snd (alloc s' (ArrCell vs'))) (VRef (fresh s'))"
        by (simp add: validVal_def alloc_cells)
      moreover have "fresh s \<le> fresh s'" using r(2) by (simp add: grows_def)
      ultimately show ?thesis using g by simp
    next
      case (ObjCell kvs)
      have pre: "\<forall>kv\<in>set kvs. validVal s (snd kv) \<and> (\<forall>a\<in>valRefs (snd kv). a < n)"
        using refs an ObjCell by (fastforce simp: validVal_def)
      from 2(1)[OF c ObjCell] w pre
      obtain kvs' s' where r: "cloneEntries n s kvs = Some (kvs', s')" "grows s s'"
        "\<forall>kv\<in>set kvs'. validVal s' (snd kv) \<and> (\<forall>a\<in>valRefs (snd kv). fresh s \<le> a)" by blast
      have g: "grows s (snd (alloc s' (ObjCell kvs')))"
        by (rule grows_alloc[OF r(2)]) (use r(3) in \<open>auto simp: validVal_def\<close>)
      have "deepClone (Suc n) s (VRef a) = Some (VRef (fresh s'), snd (alloc s' (ObjCell kvs')))"
        using c ObjCell r(1) by (simp add: alloc_def)
      moreover have "validVal (snd (alloc s' (ObjCell kvs'))) (VRef (fresh s'))"
        by (simp add: validVal_def alloc_cells)
      moreover have "fresh s \<le> fresh s'" using r(2) by (simp add: grows_def)
      ultimately show ?thesis using g by simp
    qed
  qed
next
  case (4 n s)
  then show ?case by (simp add: grows_refl)
next
  case (5 n s v vs)
  show ?case
  proof (intro impI)
    assume w: "wfStore s" and pre: "\<forall>x\<in>set (v # vs). validVal s x \<and> (\<forall>a\<in>valRefs x. a < n)"
    from 5(1) w pre obtain v' s1 where r1: "deepClone n s v = Some (v', s1)" "grows s s1"
      "validVal s1 v'" "\<forall>a\<in>valRefs v'. fresh s \<le> a" by auto
    have w1: "wfStore s1" using r1(2) by (simp add: grows_def)
    have pre1: "\<forall>x\<in>set vs. validVal s1 x \<and> (\<forall>a\<in>valRefs x. a < n)"
      using pre grows_valid[OF w r1(2)] by simp
    from 5(2)[OF r1(1) refl] w1 pre1
    obtain vs' s2 where r2: "cloneItems n s1 vs = Some (vs', s2)" "grows s1 s2"
      "\<forall>x\<in>set vs'. validVal s2 x \<and> (\<forall>a\<in>valRefs x. fresh s1 \<le> a)" by blast
    have le: "fresh s \<le> fresh s1" using r1(2) by (simp add: grows_def)
    have "cloneItems n s (v # vs) = Some (v' # vs', s2)" using r1(1) r2(1) by simp
    moreover have "grows s s2" by (rule grows_trans[OF r1(2) r2(2)])
    moreover have "validVal s2 v'" by (rule grows_valid[OF w1 r2(2) r1(3)])
    moreover have "\<forall>x\<in>set vs'. \<forall>a\<in>valRefs x. fresh s \<le> a" using r2(3) le by fastforce
    ultimately show "\<exists>vs' s'. cloneItems n s (v # vs) = Some (vs', s') \<and> grows s s' \<and>
        (\<forall>v\<in>set vs'. validVal s' v \<and> (\<forall>a\<in>valRefs v. fresh s \<le> a))"
      using r1(4) r2(3) by simp
  qed
next
  case (6 n s)
  then show ?case by (simp add: grows_refl)
next
  case (7 n s key v kvs)
  show ?case
  proof (intro impI)
    assume w: "wfStore s"
      and pre: "\<forall>kv\<in>set ((key, v) # kvs). validVal s (snd kv) \<and> (\<forall>a\<in>valRefs (snd kv). a < n)"
    from 7(1) w pre obtain v' s1 where r1: "deepClone n s v = Some (v', s1)" "grows s s1"
      "validVal s1 v'" "\<forall>a\<in>valRefs v'. fresh s \<le> a" by auto
    have w1: "wfStore s1" using r1(2) by (simp add: grows_def)
    have pre1: "\<forall>kv\<in>set kvs. validVal s1 (snd kv) \<and> (\<forall>a\<in>valRefs (snd kv). a < n)"
      using pre grows_valid[OF w r1(2)] by simp
    from 7(2)[OF r1(1) refl] w1 pre1
    obtain kvs' s2 where r2: "cloneEntries n s1 kvs = Some (kvs', s2)" "grows s1 s2"
      "\<forall>kv\<in>set kvs'. validVal s2 (snd kv) \<and> (\<forall>a\<in>valRefs (snd kv). fresh s1 \<le> a)" by blast
    have le: "fresh s \<le> fresh s1" using r1(2) by (simp add: grows_def)
    have "cloneEntries n s ((key, v) # kvs) = Some ((key, v') # kvs', s2)"
      using r1(1) r2(1) by simp
    moreover have "grows s s2" by (rule grows_trans[OF r1(2) r2(2)])
    moreover have "validVal s2 v'" by (rule grows_valid[OF w1 r2(2) r1(3)])
    moreover have "\<forall>kv\<in>set kvs'. \<forall>a\<in>valRefs (snd kv). fresh s \<le> a"
      using r2(3) le by fastforce
    ultimately show "\<exists>kvs' s'. cloneEntries n s ((key, v) # kvs) = Some (kvs', s') \<and> grows s s' \<and>
        (\<forall>kv\<in>set kvs'. validVal s' (snd kv) \<and> (\<forall>a\<in>valRefs (snd kv). fresh s \<le> a))"
      using r1(4) r2(3) by simp
  qed
qed (simp_all add: grows_refl)

text \<open>More fuel does not change what \<open>deepClone\<close> returns.\<close>

lemma deepClone_mono:
  "deepClone n s v = Some x \<longrightarrow> (\<forall>m\<ge>n. deepClone m s v = Some x)"
  "cloneItems n s vs = Some y \<longrightarrow> (\<forall>m\<ge>n. cloneItems m s vs = Some y)"
  "cloneEntries n s kvs = Some z \<longrightarrow> (\<forall>m\<ge>n. cloneEntries m s kvs = Some z)"
proof (induction n s v and n s vs and n s kvs arbitrary: x and y and z
       rule: deepClone_cloneItems_cloneEntries.induct)
  case (2 n s a)
  show ?case
  proof (intro impI allI)
    fix m assume h: "deepClone (Suc n) s (VRef a) = Some x" and m: "Suc n \<le> m"
    then obtain m' where m': "m = Suc m'" "n \<le> m'" by (cases m) auto
    from h obtain c where c: "cells s a = Some c" by (auto split: option.splits)
    show "deepClone m s (VRef a) = Some x"
    proof (cases c)
      case (DateCell t)
      then show ?thesis using h c m' by simp
    next
      case (ArrCell vs)
      from h c ArrCell obtain y where y: "cloneItems n s vs = Some y"
        by (auto split: option.splits)
      from 2(2)[OF c ArrCell] y m'(2) have "cloneItems m' s vs = Some y" by blast
      then show ?thesis using h c ArrCell y m'(1) by simp
    next
      case (ObjCell kvs)
      from h c ObjCell obtain z where z: "cloneEntries n s kvs = Some z"
        by (auto split: option.splits)
      from 2(1)[OF c ObjCell] z m'(2) have "cloneEntries m' s kvs = Some z" by blast
      then show ?thesis using h c ObjCell z m'(1) by simp
    qed
  qed
next
  case (5 n s v vs)
  show ?case
  proof (intro impI allI)
    fix m assume h: "cloneItems n s (v # vs) = Some y" and m: "n \<le> m"
    from h obtain v' s1 where r1: "deepClone n s v = Some (v', s1)"
      by (auto split: option.splits)
    from h r1 obtain y' where r2: "cloneItems n s1 vs = Some y'"
      by (auto split: option.splits)
    from 5(1) r1 m have "deepClone m s v = Some (v', s1)" by blast
    moreover from 5(2)[OF r1 refl] r2 m have "cloneItems m s1 vs = Some y'" by blast
    ultimately show "cloneItems m s (v # vs) = Some y" using h r1 r2 by simp
  qed
next
  case (7 n s key v kvs)
  show ?case
  proof (intro impI allI)
    fix m assume h: "cloneEntries n s ((key, v) # kvs) = Some z" and m: "n \<le> m"
    from h obtain v' s1 where r1: "deepClone n s v = Some (v', s1)"
      by (auto split: option.splits)
    from h r1 obtain z' where r2: "cloneEntries n s1 kvs = Some z'"
      by (auto split: option.splits)
    from 7(1) r1 m have "deepClone m s v = Some (v', s1)" by blast
    moreover from 7(2)[OF r1 refl] r2 m have "cloneEntries m s1 kvs = Some z'" by blast
    ultimately show "cloneEntries m s ((key, v) # kvs) = Some z" using h r1 r2 by simp
  qed
qed simp_all

subsection \<open>The traversal writes to the cells it reaches\<close>

lemma frames_refl: "frames k s s"
  by (simp add: frames_def)

lemma frames_trans:
  assumes "frames k s s1" "frames k s1 s2"
  shows "frames k s s2"
proof -
  have "\<And>a c c'. cells s a = Some c \<Longrightarrow> cells s2 a = Some c' \<Longrightarrow> cellRefs c' \<subseteq> cellRefs c"
  proof -
    fix a c c' assume h: "cells s a = Some c" "cells s2 a = Some c'"
    then obtain c1 where c1: "cells s1 a = Some c1"
      using assms(1) unfolding frames_def by (metis not_Some_eq option.distinct(1))
    have "cellRefs c1 \<subseteq> cellRefs c" using assms(1) h(1) c1 unfolding frames_def by blast
    moreover have "cellRefs c' \<subseteq> cellRefs c1" using assms(2) h(2) c1 unfolding frames_def by blast
    ultimately show "cellRefs c' \<subseteq> cellRefs c" by blast
  qed
  moreover have "fresh s2 = fresh s" using assms by (simp add: frames_def)
  moreover have "\<forall>a. (cells s2 a = None) = (cells s a = None)" using assms by (simp add: frames_def)
  moreover have "\<forall>a<k. cells s2 a = cells s a" using assms by (simp add: frames_def)
  ultimately show ?thesis unfolding frames_def by blast
qed

lemma frames_wf:
  assumes "wfStore s" "frames k s s'"
  shows "wfStore s'"
  unfolding wfStore_def
proof (intro allI impI)
  fix a c' assume h: "cells s' a = Some c'"
  then obtain c where c: "cells s a = Some c"
    using assms(2) unfolding frames_def by (metis not_Some_eq option.distinct(1))
  have sub: "cellRefs c' \<subseteq> cellRefs c" using assms(2) h c unfolding frames_def by blast
  have "a < fresh s" "\<forall>b\<in>cellRefs c. b < a \<and> cells s b \<noteq> None"
    using assms(1) c unfolding wfStore_def by blast+
  then show "a < fresh s' \<and> (\<forall>b\<in>cellRefs c'. b < a \<and> cells s' b \<noteq> None)"
    using sub assms(2) unfolding frames_def by auto
qed

lemma frames_closed:
  assumes "closedAbove k s" "frames k s s'"
  shows "closedAbove k s'"
  unfolding closedAbove_def
proof (intro allI impI)
  fix a c' assume h: "cells s' a = Some c'" "k \<le> a"
  then obtain c where c: "cells s a = Some c"
    using assms(2) unfolding frames_def by (metis not_Some_eq option.distinct(1))
  have sub: "cellRefs c' \<subseteq> cellRefs c" using assms(2) h c unfolding frames_def by blast
  have "\<forall>b\<in>cellRefs c. k \<le> b" using assms(1) c h(2) unfolding closedAbove_def by blast
  then show "\<forall>b\<in>cellRefs c'. k \<le> b" using sub by blast
qed

lemma frames_valid: "frames k s s' \<Longrightarrow> validVal s v \<Longrightarrow> validVal s' v"
  unfolding frames_def validVal_def by simp

lemma updateEntry_refs:
  "(\<Union>kv\<in>set (updateEntry kvs key (VStr u)). valRefs (snd kv)) \<subseteq> (\<Union>kv\<in>set kvs. valRefs (snd kv))"
proof (induction kvs)
  case Nil
  then show ?case by simp
next
  case (Cons kv kvs)
  obtain k w where kv: "kv = (k, w)" by (cases kv)
  show ?case
  proof (cases "k = key")
    case True
    then show ?thesis using kv by auto
  next
    case False
    then show ?thesis using kv Cons by auto
  qed
qed

lemma frames_setField:
  assumes "k \<le> a"
  shows "frames k s (setField s a key (VStr u))"
proof (cases "cells s a")
  case None
  then show ?thesis by (simp add: setField_def frames_refl)
next
  case (Some c)
  show ?thesis
  proof (cases c)
    case (ObjCell kvs)
    have e: "setField s a key (VStr u) =
               s\<lparr>cells := (cells s)(a \<mapsto> ObjCell (updateEntry kvs key (VStr u)))\<rparr>"
      using Some ObjCell by (simp add: setField_def)
    show ?thesis
      unfolding frames_def e using Some ObjCell assms updateEntry_refs[of kvs key u]
      by auto
  next
    case (ArrCell vs)
    then show ?thesis using Some by (simp add: setField_def frames_refl)
  next
    case (DateCell t)
    then show ?thesis using Some by (simp add: setField_def frames_refl)
  qed
qed

text \<open>
  Started on a value whose references are at least \<open>k\<close>, in a store whose cells from
  \<open>k\<close> on are closed, the traversal returns and leaves every cell below \<open>k\<close> as it was.
\<close>

lemma performReplacementsS_ok:
  fixes st :: "store \<times> 'd ReplacementResult"
  shows
  "wfStore (fst st) \<longrightarrow> closedAbove k (fst st) \<longrightarrow> validVal (fst st) v \<longrightarrow>
     (\<forall>a\<in>valRefs v. a < n \<and> k \<le> a) \<longrightarrow>
     (\<exists>st'. performReplacementsS n env st v currentPath idx = Some st' \<and>
        frames k (fst st) (fst st'))"
  "wfStore (fst st) \<longrightarrow> closedAbove k (fst st) \<longrightarrow>
     (\<forall>v\<in>set vs. validVal (fst st) v \<and> (\<forall>a\<in>valRefs v. a < n \<and> k \<le> a)) \<longrightarrow>
     (\<exists>st'. replaceItemsS n env st vs currentPath idx = Some st' \<and>
        frames k (fst st) (fst st'))"
  "wfStore (fst st) \<longrightarrow> closedAbove k (fst st) \<longrightarrow> k \<le> fst akvs \<longrightarrow>
     (\<forall>kv\<in>set (snd akvs). validVal (fst st) (snd kv) \<and>
        (\<forall>a\<in>valRefs (snd kv). a < n \<and> k \<le> a)) \<longrightarrow>
     (\<exists>st'. replaceEntriesS n env st akvs currentPath idx = Some st' \<and>
        frames k (fst st) (fst st'))"
proof (induction n env st v currentPath idx and n env st vs currentPath idx
         and n env st akvs currentPath idx
       rule: performReplacementsS_replaceItemsS_replaceEntriesS.induct)
  case (1 env st a currentPath idx)
  then show ?case by simp
next
  case (2 n env st a currentPath idx)
  show ?case
  proof (intro impI)
    let ?s = "fst st"
    assume w: "wfStore ?s" and cl: "closedAbove k ?s" and v: "validVal ?s (VRef a)"
      and lt: "\<forall>b\<in>valRefs (VRef a). b < Suc n \<and> k \<le> b"
    from v obtain c where c: "cells ?s a = Some c" by (auto simp: validVal_def)
    have an: "a \<le> n" "k \<le> a" using lt by simp_all
    have refs: "\<forall>b\<in>cellRefs c. b < n \<and> k \<le> b \<and> cells ?s b \<noteq> None"
    proof
      fix b assume b: "b \<in> cellRefs c"
      have "b < a \<and> cells ?s b \<noteq> None" using w c b unfolding wfStore_def by blast
      moreover have "k \<le> b" using cl c an(2) b unfolding closedAbove_def by blast
      ultimately show "b < n \<and> k \<le> b \<and> cells ?s b \<noteq> None" using an(1) by simp
    qed
    show "\<exists>st'. performReplacementsS (Suc n) env st (VRef a) currentPath idx = Some st' \<and>
        frames k ?s (fst st')"
    proof (cases c)
      case (DateCell t)
      then show ?thesis using c by (simp add: frames_refl)
    next
      case (ArrCell vs)
      have pre: "\<forall>v\<in>set vs. validVal ?s v \<and> (\<forall>a\<in>valRefs v. a < n \<and> k \<le> a)"
        using refs ArrCell by (fastforce simp: validVal_def)
      from 2(2)[OF c ArrCell] w cl pre show ?thesis using c ArrCell by simp
    next
      case (ObjCell kvs)
      have pre: "\<forall>kv\<in>set kvs. validVal ?s (snd kv) \<and> (\<forall>a\<in>valRefs (snd kv). a < n \<and> k \<le> a)"
        using refs ObjCell by (fastforce simp: validVal_def)
      from 2(1)[OF c ObjCell] w cl pre an(2) show ?thesis using c ObjCell by simp
    qed
  qed
next
  case (4 n env st currentPath i)
  then show ?case by (simp add: frames_refl)
next
  case (5 n env st v vs currentPath i)
  show ?case
  proof (intro impI)
    let ?s = "fst st"
    assume w: "wfStore ?s" and cl: "closedAbove k ?s"
      and pre: "\<forall>x\<in>set (v # vs). validVal ?s x \<and> (\<forall>a\<in>valRefs x. a < n \<and> k \<le> a)"
    from 5(1) w cl pre obtain st1
      where r1: "performReplacementsS n env st v (itemPath currentPath i) i = Some st1"
        "frames k ?s (fst st1)" by auto
    have pre1: "\<forall>x\<in>set vs. validVal (fst st1) x \<and> (\<forall>a\<in>valRefs x. a < n \<and> k \<le> a)"
      using pre frames_valid[OF r1(2)] by simp
    from 5(2)[OF r1(1)] frames_wf[OF w r1(2)] frames_closed[OF cl r1(2)] pre1
    obtain st2 where r2: "replaceItemsS n env st1 vs currentPath (Suc i) = Some st2"
      "frames k (fst st1) (fst st2)" by blast
    show "\<exists>st'. replaceItemsS n env st (v # vs) currentPath i = Some st' \<and> frames k ?s (fst st')"
      using r1(1) r2(1) frames_trans[OF r1(2) r2(2)] by simp
  qed
next
  case (6 n env st a currentPath idx)
  then show ?case by (simp add: frames_refl)
next
  case (7 n env st a key v kvs currentPath idx)
  let ?s = "fst st"
  let ?inner = "(case v of
              VStr u \<Rightarrow>
                if replacerIsPicsumUrl u then
                  (case replaceUrl key u (keyPath currentPath key) (envUrlMappings env)
                          (envCdnMappings env) (snd st) (envOptions env) idx of
                     (Some finalUrl, r) \<Rightarrow> Some (setField (fst st) a key (VStr finalUrl), r)
                   | (None, r) \<Rightarrow> Some (fst st, r))
                else Some st
            | VRef b \<Rightarrow> performReplacementsS n env st v (keyPath currentPath key) idx
            | _ \<Rightarrow> Some st)"
  show ?case
  proof (intro impI)
    assume w: "wfStore ?s" and cl: "closedAbove k ?s" and ka: "k \<le> fst (a, (key, v) # kvs)"
      and pre: "\<forall>kv\<in>set (snd (a, (key, v) # kvs)). validVal ?s (snd kv) \<and>
                  (\<forall>a\<in>valRefs (snd kv). a < n \<and> k \<le> a)"
    have "\<exists>st1. ?inner = Some st1 \<and> frames k ?s (fst st1)"
    proof (cases v)
      case (VStr u)
      show ?thesis
      proof (cases "replacerIsPicsumUrl u")
        case True
        obtain fo r where ru: "replaceUrl key u (keyPath currentPath key) (envUrlMappings env)
                          (envCdnMappings env) (snd st) (envOptions env) idx = (fo, r)"
          by (cases "replaceUrl key u (keyPath currentPath key) (envUrlMappings env)
                          (envCdnMappings env) (snd st) (envOptions env) idx")
        show ?thesis
          using VStr True ru ka frames_setField[of k a ?s key] 
          by (cases fo) (simp_all add: frames_refl)
      next
        case False
        then show ?thesis using VStr by (simp add: frames_refl)
      qed
    next
      case (VRef b)
      from 7(1)[OF VRef] w cl pre show ?thesis using VRef by simp
    qed (simp_all add: frames_refl)
    then obtain st1 where r1: "?inner = Some st1" "frames k ?s (fst st1)" by blast
    have pre1: "\<forall>kv\<in>set (snd (a, kvs)). validVal (fst st1) (snd kv) \<and>
                  (\<forall>a\<in>valRefs (snd kv). a < n \<and> k \<le> a)"
      using pre frames_valid[OF r1(2)] by simp
    from 7(2)[OF r1(1)] frames_wf[OF w r1(2)] frames_closed[OF cl r1(2)] pre1 ka
    obtain st2 where r2: "replaceEntriesS n env st1 (a, kvs) currentPath idx = Some st2"
      "frames k (fst st1) (fst st2)" by auto
    have "replaceEntriesS n env st (a, (key, v) # kvs) currentPath idx = Some st2"
      using r1(1) r2(1) by simp
    then show "\<exists>st'. replaceEntriesS n env st (a, (key, v) # kvs) currentPath idx = Some st' \<and>
        frames k ?s (fst st')"
      using frames_trans[OF r1(2) r2(2)] by simp
  qed
qed (simp_all add: frames_refl)

text \<open>More fuel does not change what the traversal returns.\<close>

lemma performReplacementsS_mono:
  fixes st :: "store \<times> 'd ReplacementResult"
  shows
  "performReplacementsS n env st v currentPath idx = Some x \<longrightarrow>
     (\<forall>m\<ge>n. performReplacementsS m env st v currentPath idx = Some x)"
  "replaceItemsS n env st vs currentPath idx = Some x \<longrightarrow>
     (\<forall>m\<ge>n. replaceItemsS m env st vs currentPath idx = Some x)"
  "replaceEntriesS n env st akvs currentPath idx = Some x \<longrightarrow>
     (\<forall>m\<ge>n. replaceEntriesS m env st akvs currentPath idx = Some x)"
proof (induction n env st v currentPath idx and n env st vs currentPath idx
         and n env st akvs currentPath idx arbitrary: x and x and x
       rule: performReplacementsS_replaceItemsS_replaceEntriesS.induct)
  case (2 n env st a currentPath idx)
  show ?case
  proof (intro impI allI)
    fix m assume h: "performReplacementsS (Suc n) env st (VRef a) currentPath idx = Some x"
      and m: "Suc n \<le> m"
    then obtain m' where m': "m = Suc m'" "n \<le> m'" by (cases m) auto
    from h obtain c where c: "cells (fst st) a = Some c" by (auto split: option.splits)
    show "performReplacementsS m env st (VRef a) currentPath idx = Some x"
    proof (cases c)
      case (DateCell t)
      then show ?thesis using h c m' by simp
    next
      case (ArrCell vs)
      have "replaceItemsS n env st vs currentPath 0 = Some x" using h c ArrCell by simp
      with 2(2)[OF c ArrCell] m'(2)
      have "replaceItemsS m' env st vs currentPath 0 = Some x" by blast
      then show ?thesis using c ArrCell m'(1) by simp
    next
      case (ObjCell kvs)
      have "replaceEntriesS n env st (a, kvs) currentPath idx = Some x"
        using h c ObjCell by simp
      with 2(1)[OF c ObjCell] m'(2)
      have "replaceEntriesS m' env st (a, kvs) currentPath idx = Some x" by blast
      then show ?thesis using c ObjCell m'(1) by simp
    qed
  qed
next
  case (5 n env st v vs currentPath i)
  show ?case
  proof (intro impI allI)
    fix m assume h: "replaceItemsS n env st (v # vs) currentPath i = Some x" and m: "n \<le> m"
    from h obtain st1 where r1: "performReplacementsS n env st v (itemPath currentPath i) i = Some st1"
      by (auto split: option.splits)
    from h r1 have r2: "replaceItemsS n env st1 vs currentPath (Suc i) = Some x" by simp
    from 5(1) r1 m have "performReplacementsS m env st v (itemPath currentPath i) i = Some st1"
      by blast
    moreover from 5(2)[OF r1] r2 m have "replaceItemsS m env st1 vs currentPath (Suc i) = Some x"
      by blast
    ultimately show "replaceItemsS m env st (v # vs) currentPath i = Some x" by simp
  qed
next
  case (7 n env st a key v kvs currentPath idx)
  let ?inner = "\<lambda>n. (case v of
              VStr u \<Rightarrow>
                if replacerIsPicsumUrl u then
                  (case replaceUrl key u (keyPath currentPath key) (envUrlMappings env)
                          (envCdnMappings env) (snd st) (envOptions env) idx of
                     (Some finalUrl, r) \<Rightarrow> Some (setField (fst st) a key (VStr finalUrl), r)
                   | (None, r) \<Rightarrow> Some (fst st, r))
                else Some st
            | VRef b \<Rightarrow> performReplacementsS n env st v (keyPath currentPath key) idx
            | _ \<Rightarrow> Some st)"
  show ?case
  proof (intro impI allI)
    fix m assume h: "replaceEntriesS n env st (a, (key, v) # kvs) currentPath idx = Some x"
      and m: "n \<le> m"
    have e: "\<And>j. replaceEntriesS j env st (a, (key, v) # kvs) currentPath idx =
               (case ?inner j of None \<Rightarrow> None
                | Some st1 \<Rightarrow> replaceEntriesS j env st1 (a, kvs) currentPath idx)"
      by simp
    from h obtain st1 where r1: "?inner n = Some st1"
      unfolding e by (auto split: option.splits)
    from h r1 have r2: "replaceEntriesS n env st1 (a, kvs) currentPath idx = Some x"
      unfolding e by simp
    have i1: "?inner m = Some st1"
    proof (cases v)
      case (VRef b)
      have "performReplacementsS n env st v (keyPath currentPath key) idx = Some st1"
        using r1 VRef by simp
      with 7(1)[OF VRef] m
      have "performReplacementsS m env st v (keyPath currentPath key) idx = Some st1" by blast
      then show ?thesis using VRef by simp
    qed (use r1 in simp_all)
    from 7(2)[OF r1] r2 m have "replaceEntriesS m env st1 (a, kvs) currentPath idx = Some x"
      by blast
    then show "replaceEntriesS m env st (a, (key, v) # kvs) currentPath idx = Some x"
      unfolding e using i1 by simp
  qed
qed simp_all

text \<open>The traversal does not assign to \<open>result.modifiedData\<close>.\<close>

lemma replaceUrl_modifiedData:
  "modifiedData (snd (replaceUrl key u p um cm result opts idx)) = modifiedData result"
  by (simp add: replaceUrl_def Let_def split: prod.splits option.splits)

lemma performReplacementsS_modifiedData:
  fixes st :: "store \<times> 'd ReplacementResult"
  shows
  "performReplacementsS n env st v currentPath idx = Some x \<longrightarrow>
     modifiedData (snd x) = modifiedData (snd st)"
  "replaceItemsS n env st vs currentPath idx = Some x \<longrightarrow>
     modifiedData (snd x) = modifiedData (snd st)"
  "replaceEntriesS n env st akvs currentPath idx = Some x \<longrightarrow>
     modifiedData (snd x) = modifiedData (snd st)"
proof (induction n env st v currentPath idx and n env st vs currentPath idx
         and n env st akvs currentPath idx arbitrary: x and x and x
       rule: performReplacementsS_replaceItemsS_replaceEntriesS.induct)
  case (2 n env st a currentPath idx)
  show ?case
  proof (intro impI)
    assume h: "performReplacementsS (Suc n) env st (VRef a) currentPath idx = Some x"
    from h obtain c where c: "cells (fst st) a = Some c" by (auto split: option.splits)
    show "modifiedData (snd x) = modifiedData (snd st)"
    proof (cases c)
      case (DateCell t)
      then show ?thesis using h c by simp
    next
      case (ArrCell vs)
      have "replaceItemsS n env st vs currentPath 0 = Some x" using h c ArrCell by simp
      with 2(2)[OF c ArrCell] show ?thesis by blast
    next
      case (ObjCell kvs)
      have "replaceEntriesS n env st (a, kvs) currentPath idx = Some x"
        using h c ObjCell by simp
      with 2(1)[OF c ObjCell] show ?thesis by blast
    qed
  qed
next
  case (5 n env st v vs currentPath i)
  show ?case
  proof (intro impI)
    assume h: "replaceItemsS n env st (v # vs) currentPath i = Some x"
    from h obtain st1 where r1: "performReplacementsS n env st v (itemPath currentPath i) i = Some st1"
      by (auto split: option.splits)
    from h r1 have r2: "replaceItemsS n env st1 vs currentPath (Suc i) = Some x" by simp
    from 5(1) r1 have "modifiedData (snd st1) = modifiedData (snd st)" by blast
    moreover from 5(2)[OF r1] r2 have "modifiedData (snd x) = modifiedData (snd st1)" by blast
    ultimately show "modifiedData (snd x) = modifiedData (snd st)" by simp
  qed
next
  case (7 n env st a key v kvs currentPath idx)
  let ?inner = "(case v of
              VStr u \<Rightarrow>
                if replacerIsPicsumUrl u then
                  (case replaceUrl key u (keyPath currentPath key) (envUrlMappings env)
                          (envCdnMappings env) (snd st) (envOptions env) idx of
                     (Some finalUrl, r) \<Rightarrow> Some (setField (fst st) a key (VStr finalUrl), r)
                   | (None, r) \<Rightarrow> Some (fst st, r))
                else Some st
            | VRef b \<Rightarrow> performReplacementsS n env st v (keyPath currentPath key) idx
            | _ \<Rightarrow> Some st)"
  show ?case
  proof (intro impI)
    assume h: "replaceEntriesS n env st (a, (key, v) # kvs) currentPath idx = Some x"
    have e: "replaceEntriesS n env st (a, (key, v) # kvs) currentPath idx =
               (case ?inner of None \<Rightarrow> None
                | Some st1 \<Rightarrow> replaceEntriesS n env st1 (a, kvs) currentPath idx)"
      by simp
    from h obtain st1 where r1: "?inner = Some st1"
      unfolding e by (auto split: option.splits)
    from h r1 have r2: "replaceEntriesS n env st1 (a, kvs) currentPath idx = Some x"
      unfolding e by simp
    have i1: "modifiedData (snd st1) = modifiedData (snd st)"
    proof (cases v)
      case (VStr u)
      show ?thesis
      proof (cases "replacerIsPicsumUrl u")
        case True
        obtain fo r where ru: "replaceUrl key u (keyPath currentPath key) (envUrlMappings env)
                          (envCdnMappings env) (snd st) (envOptions env) idx = (fo, r)"
          by (cases "replaceUrl key u (keyPath currentPath key) (envUrlMappings env)
                          (envCdnMappings env) (snd st) (envOptions env) idx")
        have "modifiedData r = modifiedData (snd st)"
          using replaceUrl_modifiedData[of key u "keyPath currentPath key" "envUrlMappings env"
                  "envCdnMappings env" "snd st" "envOptions env" idx] ru by simp
        then show ?thesis using r1 VStr True ru by (cases fo) auto
      next
        case False
        then show ?thesis using r1 VStr by auto
      qed
    next
      case (VRef b)
      have "performReplacementsS n env st v (keyPath currentPath key) idx = Some st1"
        using r1 VRef by simp
      with 7(1)[OF VRef] show ?thesis by blast
    qed (use r1 in auto)
    from 7(2)[OF r1] r2 have "modifiedData (snd x) = modifiedData (snd st1)" by blast
    then show "modifiedData (snd x) = modifiedData (snd st)" using i1 by simp
  qed
qed simp_all


subsection \<open>Claim C6\<close>

text \<open>
  C6. With \<open>backupOriginal\<close> not switched off (the default), \<open>replaceUrls\<close> on a
  well-formed store, for a document in it, returns for every fuel from some bound on,
  always with the same result and store: \<open>modifiedData\<close> is the value \<open>deepClone\<close>
  returned for the document, a new reference when the document is an array or an
  object, and every cell the store had before the call holds what it held before the
  call. The substitutions are assignments to cells of the copy.
\<close>

theorem original_document_unchanged:
  assumes w: "wfStore s" and v: "validVal s data" and b: "backupOriginal options \<noteq> Some False"
  shows "\<exists>N res s'. \<forall>fuel\<ge>N.
           replaceUrlsS fuel s data urlMappings cdnMappings options validation = Some (res, s') \<and>
           (\<exists>s1. deepClone fuel s data = Some (modifiedData res, s1)) \<and>
           (\<forall>a\<in>valRefs (modifiedData res). fresh s \<le> a) \<and>
           (\<forall>a<fresh s. cells s' a = cells s a)"
proof -
  define opts where "opts = normalizeReplacementOptions options"
  define env where "env = \<lparr>envUrlMappings = urlMappings, envCdnMappings = cdnMappings,
                 envOptions = opts\<rparr>"
  have bk: "backup opts"
    using b by (cases "backupOriginal options") (simp_all add: opts_def normalizeReplacementOptions_def)
  have lt: "\<forall>a\<in>valRefs data. a < fresh s" using valid_lt[OF w v] by blast
  from deepClone_ok(1)[of s data "fresh s"] w v lt
  obtain copy s1 where d1: "deepClone (fresh s) s data = Some (copy, s1)" and g1: "grows s s1"
    and vc: "validVal s1 copy" and fc: "\<forall>a\<in>valRefs copy. fresh s \<le> a" by blast
  have w1: "wfStore s1" using g1 by (simp add: grows_def)
  have v1: "validVal s1 data" by (rule grows_valid[OF w g1 v])
  from deepClone_ok(1)[of s1 data "fresh s"] w1 v1 lt
  obtain originalData s2 where d2: "deepClone (fresh s) s1 data = Some (originalData, s2)"
    and g2: "grows s1 s2" by blast
  have g: "grows s s2" by (rule grows_trans[OF g1 g2])
  have w2: "wfStore s2" using g2 by (simp add: grows_def)
  have v2: "validVal s2 copy" by (rule grows_valid[OF w1 g2 vc])
  have cl: "closedAbove (fresh s) s2" using g unfolding grows_def closedAbove_def by blast
  have le: "fresh s \<le> fresh s2" using g by (simp add: grows_def)
  define r0 :: "val ReplacementResult" where
    "r0 = \<lparr>success = False, replacedCount = 0, failedCount = 0,
           mappings = [], modifiedData = copy, errors = []\<rparr>"
  have pre: "\<forall>a\<in>valRefs copy. a < fresh s2 \<and> fresh s \<le> a"
    using fc valid_lt[OF w2 v2] by blast
  from performReplacementsS_ok(1)[of "(s2, r0)" "fresh s" copy "fresh s2" env "[]" 0] w2 cl v2 pre
  obtain st' where p: "performReplacementsS (fresh s2) env (s2, r0) copy [] 0 = Some st'"
    and f: "frames (fresh s) s2 (fst st')" by auto
  obtain s3 r1 where st': "st' = (s3, r1)" by (cases st')
  have md: "modifiedData r1 = copy"
    using performReplacementsS_modifiedData(1)[of "fresh s2" env "(s2, r0)" copy "[]" 0 st'] p st'
    by (simp add: r0_def)
  define r2 where "r2 = (if validate opts
                          then r1\<lparr>errors := errors r1 @ validation (mappings r1)\<rparr> else r1)"
  define res where "res = r2\<lparr>success := (failedCount r2 = 0 \<or> replacedCount r2 > 0)\<rparr>"
  have mres: "modifiedData res = copy" using md by (simp add: res_def r2_def)
  have same: "\<forall>a<fresh s. cells s3 a = cells s a"
  proof (intro allI impI)
    fix a assume a: "a < fresh s"
    have "cells s3 a = cells s2 a" using f a st' by (simp add: frames_def)
    moreover have "cells s2 a = cells s a" using g a by (simp add: grows_def)
    ultimately show "cells s3 a = cells s a" by simp
  qed
  have run: "\<forall>fuel\<ge>fresh s2.
           replaceUrlsS fuel s data urlMappings cdnMappings options validation = Some (res, s3) \<and>
           (\<exists>s1. deepClone fuel s data = Some (modifiedData res, s1))"
  proof (intro allI impI)
    fix fuel assume fu: "fresh s2 \<le> fuel"
    then have fu0: "fresh s \<le> fuel" using le by simp
    have e1: "deepClone fuel s data = Some (copy, s1)" using deepClone_mono(1) d1 fu0 by blast
    have e2: "deepClone fuel s1 data = Some (originalData, s2)"
      using deepClone_mono(1) d2 fu0 by blast
    have e3: "performReplacementsS fuel env (s2, r0) copy [] 0 = Some (s3, r1)"
      using performReplacementsS_mono(1) p fu st' by blast
    have "replaceUrlsS fuel s data urlMappings cdnMappings options validation = Some (res, s3)"
      unfolding replaceUrlsS_def Let_def opts_def[symmetric] env_def[symmetric]
      using bk e1 e2 e3 by (simp add: r0_def[symmetric] res_def r2_def)
    then show "replaceUrlsS fuel s data urlMappings cdnMappings options validation = Some (res, s3) \<and>
           (\<exists>s1. deepClone fuel s data = Some (modifiedData res, s1))"
      using e1 mres by simp
  qed
  show ?thesis
    using run mres fc same by (intro exI[of _ "fresh s2"] exI[of _ res] exI[of _ s3]) simp
qed

theorem original_document_unchanged_witness:
  "wfStore imgStore \<and> validVal imgStore (VRef 0) \<and>
   backupOriginal defaultReplacementOptions \<noteq> Some False \<and>
   (\<exists>N res s'. \<forall>fuel\<ge>N.
      replaceUrlsS fuel imgStore (VRef 0) imgMappings None defaultReplacementOptions noValidation
        = Some (res, s') \<and>
      (\<exists>s1. deepClone fuel imgStore (VRef 0) = Some (modifiedData res, s1)) \<and>
      (\<forall>a\<in>valRefs (modifiedData res). fresh imgStore \<le> a) \<and>
      (\<forall>a<fresh imgStore. cells s' a = cells imgStore a))"
proof -
  have w: "wfStore imgStore"
    by (auto simp: wfStore_def imgStore_def split: if_splits)
  have v: "validVal imgStore (VRef 0)"
    by (simp add: validVal_def imgStore_def)
  have b: "backupOriginal defaultReplacementOptions \<noteq> Some False"
    by (simp add: defaultReplacementOptions_def)
  show ?thesis
    using original_document_unchanged[OF w v b, of imgMappings None noValidation] w v b
    by blast
qed

text \<open>
  The run on the example document: the copy at reference 1 gets the new URL, the
  original at reference 0 keeps the old one. With \<open>backupOriginal\<close> switched off the
  original itself is written to and returned.
\<close>

lemma imgStore_default_run:
  "map_option (\<lambda>(res, s'). (modifiedData res, replacedCount res, cells s' 0, cells s' 1))
     (replaceUrlsS 1 imgStore (VRef 0) imgMappings None defaultReplacementOptions noValidation)
   = Some (VRef 1, 1,
           Some (ObjCell [(''img'', VStr ''https://picsum.photos/800/600'')]),
           Some (ObjCell [(''img'', VStr ''https://img.example/a.png'')]))"
  by code_simp

lemma imgStore_noBackup_run:
  "map_option (\<lambda>(res, s'). (modifiedData res, replacedCount res, cells s' 0, cells s' 1))
     (replaceUrlsS 1 imgStore (VRef 0) imgMappings None noBackup noValidation)
   = Some (VRef 0, 1,
           Some (ObjCell [(''img'', VStr ''https://img.example/a.png'')]),
           None)"
  by code_simp

end
